theory Spec2Isabelle
  imports Complex_Main
begin

section \<open>Collaborators of main.go\<close>

text \<open>
  The model follows \<^verbatim>\<open>main.go\<close>: \<^verbatim>\<open>Metrics.Init\<close>, \<^verbatim>\<open>processNamespace\<close> and
  \<^verbatim>\<open>processSourceFile\<close>. The packages it calls (\<^verbatim>\<open>config\<close>, \<^verbatim>\<open>relabeling\<close>,
  \<^verbatim>\<open>tail\<close>, \<^verbatim>\<open>gonx\<close>, the Prometheus client) appear as data and as parameters of
  the model: what a theorem needs from them beyond their types, it states as a
  hypothesis.
\<close>

datatype error = Error string

text \<open>
  A \<^verbatim>\<open>gonx.Entry\<close> is a set of named string fields. \<^verbatim>\<open>entry.Field(name)\<close> returns an
  error when the field does not exist; \<^verbatim>\<open>entry.FloatField(name)\<close> reads the field and
  converts it with the float parser, which is a parameter (\<open>'f\<close> stands for \<^verbatim>\<open>float64\<close>).
\<close>

type_synonym Entry = "string \<rightharpoonup> string"

definition EntryField :: "Entry \<Rightarrow> string \<Rightarrow> error + string" where
  "EntryField entry name =
     (case entry name of
        None \<Rightarrow> Inl (Error (''field does not exist: '' @ name))
      | Some v \<Rightarrow> Inr v)"

definition EntryFloatField :: "(string \<Rightarrow> error + 'f) \<Rightarrow> Entry \<Rightarrow> string \<Rightarrow> error + 'f" where
  "EntryFloatField parseFloat entry name =
     (case EntryField entry name of
        Inl err \<Rightarrow> Inl err
      | Inr tmp \<Rightarrow> parseFloat tmp)"

text \<open>
  \<^verbatim>\<open>config.RelabelConfig\<close> and \<^verbatim>\<open>relabeling.Relabeling\<close>: main.go reads the fields
  \<^verbatim>\<open>TargetLabel\<close> and \<^verbatim>\<open>SourceValue\<close> and calls the method \<^verbatim>\<open>Map\<close>, whose body is
  not part of main.go and is therefore a function carried by the rule.
\<close>

record RelabelConfig =
  TargetLabel :: string
  SourceValue :: string

record Relabeling = RelabelConfig +
  Map :: "string \<Rightarrow> error + string"

record NamespaceConfig =
  Name :: string
  Format :: string
  SourceFiles :: "string list"
  OrderedLabelNames :: "string list"
  OrderedLabelValues :: "string list"
  RelabelConfigs :: "RelabelConfig list"

text \<open>
  The parts of the other packages that main.go uses. \<open>ParseString env fmt text\<close> is
  \<^verbatim>\<open>gonx.NewParser(fmt).ParseString(text)\<close>; \<open>MustCompile\<close> returns the compiled
  configuration or the value it panics with; \<open>ParseFloat\<close> is \<^verbatim>\<open>strconv.ParseFloat\<close>
  and \<open>Negative v\<close> is the test \<^verbatim>\<open>v < 0\<close> on a \<^verbatim>\<open>float64\<close>; \<open>NewFollower\<close> returns the
  follower of a file or the error of \<^verbatim>\<open>tail.NewFollower\<close>.
\<close>

datatype Follower = Follower string

record 'f Env =
  DefaultRelabelings :: "Relabeling list"
  NewRelabelings :: "RelabelConfig list \<Rightarrow> Relabeling list"
  MustCompile :: "NamespaceConfig \<Rightarrow> error + NamespaceConfig"
  ParseString :: "string \<Rightarrow> string \<Rightarrow> error + Entry"
  ParseFloat :: "string \<Rightarrow> error + 'f"
  Negative :: "'f \<Rightarrow> bool"
  NewFollower :: "string \<Rightarrow> error + Follower"

section \<open>The Prometheus client\<close>

text \<open>
  A panic ends the function that raises it and every caller that does not recover it;
  main.go recovers none. A call that may panic returns \<open>Inl\<close> of the value of the panic,
  and \<open>andThen\<close> goes on with the next statement only after an \<open>Inr\<close>.
\<close>

definition andThen :: "error + 'a \<Rightarrow> ('a \<Rightarrow> error + 'b) \<Rightarrow> error + 'b" where
  "andThen r f = (case r of Inl err \<Rightarrow> Inl err | Inr x \<Rightarrow> f x)"

text \<open>
  A metric vector of the client is created with its variable label names and holds one
  series per tuple of label values. The counter of requests is only ever incremented, so
  its series are natural numbers. For the other vectors a series is the list of the
  values it has been given (by \<^verbatim>\<open>Add\<close> or \<^verbatim>\<open>Observe\<close>), oldest first; the
  floating-point sums, quantiles and buckets the client derives from them are not
  modelled.

  The client is not part of the repository. Of what its documentation says about the
  calls of main.go, the model has the three refusals that those calls can meet with
  label names and numbers of the exporter's own making:
  \<^item> \<^verbatim>\<open>MustRegister\<close> panics for a vector whose label names are not all different;
  \<^item> \<^verbatim>\<open>WithLabelValues\<close> panics when it is given another number of values than the
    vector has label names;
  \<^item> \<^verbatim>\<open>Add\<close> of a counter panics for a value below zero.
  The messages of the errors stand for those of the client. Its other refusals (a
  metric name registered twice, a label name that is not an identifier) depend on the
  names of the configuration alone and are not modelled: where the model starts a
  namespace, the program may still refuse it for one of them.
\<close>

record 'a Vec =
  variableLabels :: "string list"
  series :: "string list \<Rightarrow> 'a"

definition NewCounterVec :: "string list \<Rightarrow> nat Vec" where
  "NewCounterVec labels = \<lparr>variableLabels = labels, series = (\<lambda>lvs. 0)\<rparr>"

definition NewValueVec :: "string list \<Rightarrow> 'f list Vec" where
  "NewValueVec labels = \<lparr>variableLabels = labels, series = (\<lambda>lvs. [])\<rparr>"

definition MustRegister :: "'a Vec \<Rightarrow> error + unit" where
  "MustRegister vec =
     (if distinct (variableLabels vec) then Inr ()
      else Inl (Error ''duplicate label names''))"

definition WithLabelValues :: "'a Vec \<Rightarrow> string list \<Rightarrow> error + 'a" where
  "WithLabelValues vec lvs =
     (if length lvs = length (variableLabels vec) then Inr (series vec lvs)
      else Inl (Error ''inconsistent label cardinality''))"

definition CounterInc :: "nat Vec \<Rightarrow> string list \<Rightarrow> error + nat Vec" where
  "CounterInc vec lvs =
     andThen (WithLabelValues vec lvs)
       (\<lambda>c. Inr (vec\<lparr>series := (series vec)(lvs := c + 1)\<rparr>))"

definition CounterAdd :: "('f \<Rightarrow> bool) \<Rightarrow> 'f list Vec \<Rightarrow> string list \<Rightarrow> 'f \<Rightarrow> error + 'f list Vec" where
  "CounterAdd negative vec lvs v =
     andThen (WithLabelValues vec lvs)
       (\<lambda>vs. if negative v then Inl (Error ''counter cannot decrease in value'')
             else Inr (vec\<lparr>series := (series vec)(lvs := vs @ [v])\<rparr>))"

definition Observe :: "'f list Vec \<Rightarrow> string list \<Rightarrow> 'f \<Rightarrow> error + 'f list Vec" where
  "Observe vec lvs v =
     andThen (WithLabelValues vec lvs)
       (\<lambda>vs. Inr (vec\<lparr>series := (series vec)(lvs := vs @ [v])\<rparr>))"

section \<open>The metrics of a namespace\<close>

record 'f Metrics =
  countTotal :: "nat Vec"
  bytesTotal :: "'f list Vec"
  upstreamSeconds :: "'f list Vec"
  upstreamSecondsHist :: "'f list Vec"
  responseSeconds :: "'f list Vec"
  responseSecondsHist :: "'f list Vec"
  parseErrorsTotal :: nat

text \<open>
  \<^verbatim>\<open>Metrics.Init\<close> (lines 50-112). \<^verbatim>\<open>labels\<close> starts as the ordered label names of
  the compiled configuration and grows in the two loops of the source; every vector is
  created with the same list and then registered (lines 105-111). The counter of parse
  errors has no label names, so that the seventh registration has nothing to refuse.
\<close>

definition InitLabels :: "'f Env \<Rightarrow> NamespaceConfig \<Rightarrow> string list" where
  "InitLabels env cfg =
     (let labels = OrderedLabelNames cfg;
          labels = fold (\<lambda>r labels. labels @ [TargetLabel r]) (DefaultRelabelings env) labels;
          labels = fold (\<lambda>i labels. labels @ [TargetLabel (RelabelConfigs cfg ! i)])
                     [0..<length (RelabelConfigs cfg)] labels
      in labels)"

definition Init :: "'f Env \<Rightarrow> NamespaceConfig \<Rightarrow> error + (NamespaceConfig \<times> 'f Metrics)" where
  "Init env cfg0 =
     andThen (MustCompile env cfg0) (\<lambda>cfg.
       let labels = InitLabels env cfg;
           m = \<lparr>countTotal = NewCounterVec labels,
                bytesTotal = NewValueVec labels,
                upstreamSeconds = NewValueVec labels,
                upstreamSecondsHist = NewValueVec labels,
                responseSeconds = NewValueVec labels,
                responseSecondsHist = NewValueVec labels,
                parseErrorsTotal = 0\<rparr>
       in andThen (MustRegister (countTotal m)) (\<lambda>_.
          andThen (MustRegister (bytesTotal m)) (\<lambda>_.
          andThen (MustRegister (upstreamSeconds m)) (\<lambda>_.
          andThen (MustRegister (upstreamSecondsHist m)) (\<lambda>_.
          andThen (MustRegister (responseSeconds m)) (\<lambda>_.
          andThen (MustRegister (responseSecondsHist m)) (\<lambda>_.
          Inr (cfg, m))))))))"

section \<open>processSourceFile\<close>

text \<open>Lines 237-238: the rules of a loop, the built-in ones first.\<close>

definition relabelings :: "'f Env \<Rightarrow> NamespaceConfig \<Rightarrow> Relabeling list" where
  "relabelings env nsCfg = DefaultRelabelings env @ NewRelabelings env (RelabelConfigs nsCfg)"

text \<open>
  Lines 240-248: the buffer \<^verbatim>\<open>labelValues\<close> is made once, before the loop over the
  lines, with \<^verbatim>\<open>totalLabelCount\<close> empty strings, and the static values are copied to
  its front.
\<close>

definition initLabelValues :: "string list \<Rightarrow> nat \<Rightarrow> string list" where
  "initLabelValues staticLabelValues totalLabelCount =
     fold (\<lambda>i labelValues. labelValues[i := staticLabelValues ! i])
       [0..<length staticLabelValues] (replicate totalLabelCount [])"

text \<open>
  Lines 258-265: the body of the loop over the rules, and the loop. A rule whose source
  field is missing, or whose \<^verbatim>\<open>Map\<close> returns an error, writes nothing.
\<close>

definition relabelAt :: "Entry \<Rightarrow> Relabeling list \<Rightarrow> nat \<Rightarrow> nat \<Rightarrow> string list \<Rightarrow> string list" where
  "relabelAt entry rs relabelLabelOffset i labelValues =
     (case EntryField entry (SourceValue (rs ! i)) of
        Inl err \<Rightarrow> labelValues
      | Inr str \<Rightarrow>
          (case Map (rs ! i) str of
             Inl err \<Rightarrow> labelValues
           | Inr mapped \<Rightarrow> labelValues[i + relabelLabelOffset := mapped]))"

definition relabel :: "Entry \<Rightarrow> Relabeling list \<Rightarrow> nat \<Rightarrow> string list \<Rightarrow> string list" where
  "relabel entry rs relabelLabelOffset labelValues =
     fold (relabelAt entry rs relabelLabelOffset) [0..<length rs] labelValues"

text \<open>
  Lines 267-281: the updates of the metrics for one parsed line, in the order of the
  source. A panic of the client ends the function: the statements after it are not
  reached.
\<close>

definition updateMetrics :: "'f Env \<Rightarrow> Entry \<Rightarrow> string list \<Rightarrow> 'f Metrics \<Rightarrow> error + 'f Metrics" where
  "updateMetrics env entry labelValues m =
     andThen (CounterInc (countTotal m) labelValues) (\<lambda>vec.
     let m = m\<lparr>countTotal := vec\<rparr> in
     andThen
       (case EntryFloatField (ParseFloat env) entry ''body_bytes_sent'' of
          Inl err \<Rightarrow> Inr m
        | Inr bytes \<Rightarrow>
            andThen (CounterAdd (Negative env) (bytesTotal m) labelValues bytes) (\<lambda>vec.
            Inr (m\<lparr>bytesTotal := vec\<rparr>))) (\<lambda>m.
     andThen
       (case EntryFloatField (ParseFloat env) entry ''upstream_response_time'' of
          Inl err \<Rightarrow> Inr m
        | Inr upstreamTime \<Rightarrow>
            andThen (Observe (upstreamSeconds m) labelValues upstreamTime) (\<lambda>vec.
            let m = m\<lparr>upstreamSeconds := vec\<rparr> in
            andThen (Observe (upstreamSecondsHist m) labelValues upstreamTime) (\<lambda>vec.
            Inr (m\<lparr>upstreamSecondsHist := vec\<rparr>)))) (\<lambda>m.
     (case EntryFloatField (ParseFloat env) entry ''request_time'' of
        Inl err \<Rightarrow> Inr m
      | Inr responseTime \<Rightarrow>
          andThen (Observe (responseSeconds m) labelValues responseTime) (\<lambda>vec.
          let m = m\<lparr>responseSeconds := vec\<rparr> in
          andThen (Observe (responseSecondsHist m) labelValues responseTime) (\<lambda>vec.
          Inr (m\<lparr>responseSecondsHist := vec\<rparr>)))))))"

text \<open>
  The state of one loop is the buffer and the metrics. Lines 250-282: one turn of the
  loop over the lines. A line that does not parse counts as a parse error and the loop
  goes on with the next line (\<^verbatim>\<open>continue\<close>); the message printed for it is not
  modelled. A panic in the updates ends the loop, and with it the process.
\<close>

record 'f LoopState =
  labelValues :: "string list"
  metrics :: "'f Metrics"

definition processLine :: "'f Env \<Rightarrow> NamespaceConfig \<Rightarrow> string \<Rightarrow> 'f LoopState \<Rightarrow> error + 'f LoopState" where
  "processLine env nsCfg text st =
     (case ParseString env (Format nsCfg) text of
        Inl err \<Rightarrow>
          Inr (st\<lparr>metrics := (metrics st)\<lparr>parseErrorsTotal := parseErrorsTotal (metrics st) + 1\<rparr>\<rparr>)
      | Inr entry \<Rightarrow>
          (let lvs = relabel entry (relabelings env nsCfg) (length (OrderedLabelValues nsCfg))
                       (labelValues st)
           in andThen (updateMetrics env entry lvs (metrics st)) (\<lambda>m.
              Inr \<lparr>labelValues = lvs, metrics = m\<rparr>)))"

text \<open>The loop over the lines (lines 250-282), from a state of the loop.\<close>

fun processLines :: "'f Env \<Rightarrow> NamespaceConfig \<Rightarrow> string list \<Rightarrow> 'f LoopState \<Rightarrow> error + 'f LoopState" where
  "processLines env nsCfg [] st = Inr st"
| "processLines env nsCfg (text # rest) st =
     andThen (processLine env nsCfg text st) (processLines env nsCfg rest)"

text \<open>
  \<^verbatim>\<open>processSourceFile\<close> on the lines its follower delivers, from the metrics \<open>m\<close> of
  the namespace; the result is the state after the last of these lines, or the panic
  that ended the loop.
\<close>

definition processSourceFile :: "'f Env \<Rightarrow> NamespaceConfig \<Rightarrow> string list \<Rightarrow> 'f Metrics \<Rightarrow> error + 'f LoopState" where
  "processSourceFile env nsCfg lines m =
     (let staticLabelValues = OrderedLabelValues nsCfg;
          totalLabelCount = length staticLabelValues + length (relabelings env nsCfg)
      in processLines env nsCfg lines
           \<lparr>labelValues = initLabelValues staticLabelValues totalLabelCount, metrics = m\<rparr>)"

section \<open>processNamespace and the running process\<close>

text \<open>
  Lines 216-234. \<^verbatim>\<open>processNamespace\<close> initialises the metrics and then, file by file,
  creates the follower, registers the error callback and starts the loop of the file in
  a goroutine. A started loop is represented by its follower and its buffer
  \<^verbatim>\<open>labelValues\<close>, which \<^verbatim>\<open>processSourceFile\<close> creates before it reads a line;
  the metrics are shared by the loops of the namespace. The two \<^verbatim>\<open>panic\<close> calls of
  the function and a panic of \<^verbatim>\<open>Init\<close> are the \<open>Inl\<close> results.
\<close>

record 'f NamespaceState =
  nsConfig :: NamespaceConfig
  nsMetrics :: "'f Metrics"
  loops :: "(Follower \<times> string list) list"

fun startLoops :: "'f Env \<Rightarrow> NamespaceConfig \<Rightarrow> string list \<Rightarrow> error + (Follower \<times> string list) list" where
  "startLoops env cfg [] = Inr []"
| "startLoops env cfg (f # fs) =
     (case NewFollower env f of
        Inl err \<Rightarrow> Inl err
      | Inr t \<Rightarrow>
          (case startLoops env cfg fs of
             Inl err \<Rightarrow> Inl err
           | Inr ls \<Rightarrow>
               Inr ((t, initLabelValues (OrderedLabelValues cfg)
                          (length (OrderedLabelValues cfg) + length (relabelings env cfg))) # ls)))"

definition processNamespace :: "'f Env \<Rightarrow> NamespaceConfig \<Rightarrow> error + 'f NamespaceState" where
  "processNamespace env cfg0 =
     (case Init env cfg0 of
        Inl err \<Rightarrow> Inl err
      | Inr (cfg, m) \<Rightarrow>
          (case startLoops env cfg (SourceFiles cfg) of
             Inl err \<Rightarrow> Inl err
           | Inr ls \<Rightarrow> Inr \<lparr>nsConfig = cfg, nsMetrics = m, loops = ls\<rparr>))"

text \<open>
  A Go program ends when a panic is not recovered in any of its goroutines, and main.go
  recovers none. The process is therefore either running, with the state of its
  namespaces, or it has ended with the value of a panic. Lines 170-174 of \<^verbatim>\<open>main\<close>
  start the namespaces; here they are started one after the other, in the order of the
  configuration.
\<close>

datatype 'f Process = Running "'f NamespaceState list" | Panicked error

fun startNamespaces :: "'f Env \<Rightarrow> NamespaceConfig list \<Rightarrow> 'f Process" where
  "startNamespaces env [] = Running []"
| "startNamespaces env (ns # rest) =
     (case processNamespace env ns of
        Inl err \<Rightarrow> Panicked err
      | Inr s \<Rightarrow>
          (case startNamespaces env rest of
             Panicked err \<Rightarrow> Panicked err
           | Running ss \<Rightarrow> Running (s # ss)))"

text \<open>
  What the followers do to a running process: the follower of file \<open>k\<close> of namespace
  \<open>n\<close> delivers a line, which the loop of that file handles with one turn of lines
  250-282 on the shared metrics, or it reports an error, which calls the function
  registered with \<^verbatim>\<open>OnError\<close> (lines 228-230): \<^verbatim>\<open>panic(err)\<close>. A panic of the
  client while the line is handled ends the process as well. The order of the events is
  the order in which the goroutines take their turns. An event of a follower that was
  never started changes nothing.
\<close>

datatype event = Line nat nat string | Failed nat nat error

fun deliver :: "'f Env \<Rightarrow> 'f Process \<Rightarrow> event \<Rightarrow> 'f Process" where
  "deliver env (Panicked e) ev = Panicked e"
| "deliver env (Running nss) (Failed n k err) =
     (if n < length nss \<and> k < length (loops (nss ! n)) then Panicked err else Running nss)"
| "deliver env (Running nss) (Line n k text) =
     (if n < length nss \<and> k < length (loops (nss ! n))
      then (let ns = nss ! n in
            case processLine env (nsConfig ns) text
                   \<lparr>labelValues = snd (loops ns ! k), metrics = nsMetrics ns\<rparr> of
              Inl err \<Rightarrow> Panicked err
            | Inr st \<Rightarrow>
                Running (nss[n := ns\<lparr>nsMetrics := metrics st,
                                     loops := (loops ns)[k := (fst (loops ns ! k), labelValues st)]\<rparr>]))
      else Running nss)"

text \<open>How many loops each namespace of a running process has.\<close>

definition shape :: "'f NamespaceState list \<Rightarrow> nat list" where
  "shape nss = map (\<lambda>ns. length (loops ns)) nss"

definition run :: "'f Env \<Rightarrow> 'f Process \<Rightarrow> event list \<Rightarrow> 'f Process" where
  "run env p evs = foldl (deliver env) p evs"

section \<open>Notions used in the statements\<close>

text \<open>
  What rule \<open>r\<close> produces for a parsed line: the two tests of lines 259 and 261 taken
  together. \<open>None\<close> means that the source field is absent or that \<^verbatim>\<open>Map\<close> failed.
\<close>

definition ruleValue :: "Relabeling \<Rightarrow> Entry \<Rightarrow> string option" where
  "ruleValue r entry =
     (case EntryField entry (SourceValue r) of
        Inl err \<Rightarrow> None
      | Inr str \<Rightarrow> (case Map r str of Inl err \<Rightarrow> None | Inr mapped \<Rightarrow> Some mapped))"

text \<open>
  The numbers a parsed line offers under a field name: none when the field is absent or
  its text is not a number.
\<close>

definition fieldValues :: "'f Env \<Rightarrow> Entry \<Rightarrow> string \<Rightarrow> 'f list" where
  "fieldValues env entry name =
     (case entry name of
        None \<Rightarrow> []
      | Some s \<Rightarrow> (case ParseFloat env s of Inl err \<Rightarrow> [] | Inr v \<Rightarrow> [v]))"

text \<open>
  The values rule \<open>i\<close> has produced on the parsed lines of a loop, oldest first.
\<close>

definition ruleHistory :: "'f Env \<Rightarrow> NamespaceConfig \<Rightarrow> nat \<Rightarrow> string list \<Rightarrow> string list" where
  "ruleHistory env nsCfg i lines =
     concat (map (\<lambda>text.
       case ParseString env (Format nsCfg) text of
         Inl err \<Rightarrow> []
       | Inr entry \<Rightarrow>
           (case ruleValue (relabelings env nsCfg ! i) entry of None \<Rightarrow> [] | Some v \<Rightarrow> [v]))
       lines)"

text \<open>
  The label vector of a line as section 4.2 of the specification describes it: a fresh
  vector with the static values, and for every rule the value it produces for the line,
  or the empty default.
\<close>

definition specLabelVector :: "NamespaceConfig \<Rightarrow> Relabeling list \<Rightarrow> Entry \<Rightarrow> string list" where
  "specLabelVector nsCfg rs entry =
     OrderedLabelValues nsCfg
       @ map (\<lambda>r. case ruleValue r entry of None \<Rightarrow> [] | Some v \<Rightarrow> v) rs"

text \<open>
  The six vectors take label tuples of the length of \<open>lvs\<close>, so that no call of
  \<^verbatim>\<open>WithLabelValues\<close> with \<open>lvs\<close> panics.
\<close>

definition accepts :: "'f Metrics \<Rightarrow> string list \<Rightarrow> bool" where
  "accepts m lvs =
     (length (variableLabels (countTotal m)) = length lvs \<and>
      length (variableLabels (bytesTotal m)) = length lvs \<and>
      length (variableLabels (upstreamSeconds m)) = length lvs \<and>
      length (variableLabels (upstreamSecondsHist m)) = length lvs \<and>
      length (variableLabels (responseSeconds m)) = length lvs \<and>
      length (variableLabels (responseSecondsHist m)) = length lvs)"

text \<open>The byte count of the line, if it has one, is not below zero.\<close>

definition bytesAccepted :: "'f Env \<Rightarrow> Entry \<Rightarrow> bool" where
  "bytesAccepted env entry =
     list_all (\<lambda>v. \<not> Negative env v) (fieldValues env entry ''body_bytes_sent'')"

text \<open>
  A series with further values, and the metrics after a parsed line when the client
  accepts every call: both are used to evaluate the updates.
\<close>

definition grow :: "'f list Vec \<Rightarrow> string list \<Rightarrow> 'f list \<Rightarrow> 'f list Vec" where
  "grow vec lvs vs = vec\<lparr>series := (series vec)(lvs := series vec lvs @ vs)\<rparr>"

definition recorded :: "'f Env \<Rightarrow> Entry \<Rightarrow> string list \<Rightarrow> 'f Metrics \<Rightarrow> 'f Metrics" where
  "recorded env entry lvs m =
     m\<lparr>countTotal :=
         (countTotal m)\<lparr>series := (series (countTotal m))(lvs := series (countTotal m) lvs + 1)\<rparr>,
       bytesTotal := grow (bytesTotal m) lvs (fieldValues env entry ''body_bytes_sent''),
       upstreamSeconds :=
         grow (upstreamSeconds m) lvs (fieldValues env entry ''upstream_response_time''),
       upstreamSecondsHist :=
         grow (upstreamSecondsHist m) lvs (fieldValues env entry ''upstream_response_time''),
       responseSeconds := grow (responseSeconds m) lvs (fieldValues env entry ''request_time''),
       responseSecondsHist :=
         grow (responseSecondsHist m) lvs (fieldValues env entry ''request_time'')\<rparr>"

section \<open>A sample namespace\<close>

text \<open>
  A concrete environment and configuration, used to run the model: two built-in rules
  that copy their field, user rules whose \<^verbatim>\<open>Map\<close> rejects the placeholder \<^verbatim>\<open>-\<close>,
  one static label, and a parser that knows four lines, one of them with a byte count
  below zero.
\<close>

definition sampleFloat :: "string \<Rightarrow> error + real" where
  "sampleFloat s =
     (if s = ''0.125'' then Inr (1 / 8)
      else if s = ''512'' then Inr 512
      else if s = ''-5'' then Inr (- 5)
      else Inl (Error ''invalid syntax''))"

definition okLine :: string where
  "okLine = ''alice GET 200 512 0.125''"

definition dashLine :: string where
  "dashLine = ''- GET 200 - 0.125''"

definition shortLine :: string where
  "shortLine = ''GET 200''"

definition negLine :: string where
  "negLine = ''bob GET 200 -5 0.125''"

definition okEntry :: Entry where
  "okEntry = [''remote_user'' \<mapsto> ''alice'', ''request'' \<mapsto> ''GET'', ''status'' \<mapsto> ''200'',
              ''body_bytes_sent'' \<mapsto> ''512'', ''request_time'' \<mapsto> ''0.125'']"

definition dashEntry :: Entry where
  "dashEntry = [''remote_user'' \<mapsto> ''-'', ''request'' \<mapsto> ''GET'', ''status'' \<mapsto> ''200'',
                ''body_bytes_sent'' \<mapsto> ''-'', ''request_time'' \<mapsto> ''0.125'']"

definition negEntry :: Entry where
  "negEntry = [''remote_user'' \<mapsto> ''bob'', ''request'' \<mapsto> ''GET'', ''status'' \<mapsto> ''200'',
               ''body_bytes_sent'' \<mapsto> ''-5'', ''request_time'' \<mapsto> ''0.125'']"

definition shortEntry :: Entry where
  "shortEntry = [''request'' \<mapsto> ''GET'', ''status'' \<mapsto> ''200'']"

definition sampleParse :: "string \<Rightarrow> string \<Rightarrow> error + Entry" where
  "sampleParse fmt text =
     (if text = okLine then Inr okEntry
      else if text = dashLine then Inr dashEntry
      else if text = shortLine then Inr shortEntry
      else if text = negLine then Inr negEntry
      else Inl (Error ''access log line does not match given format''))"

definition sampleMap :: "string \<Rightarrow> error + string" where
  "sampleMap s = (if s = ''-'' then Inl (Error ''no match'') else Inr s)"

definition sampleEnv :: "real Env" where
  "sampleEnv =
     \<lparr>DefaultRelabelings =
        [\<lparr>TargetLabel = ''method'', SourceValue = ''request'', Map = Inr\<rparr>,
         \<lparr>TargetLabel = ''status'', SourceValue = ''status'', Map = Inr\<rparr>],
      NewRelabelings =
        map (\<lambda>c. \<lparr>TargetLabel = TargetLabel c, SourceValue = SourceValue c, Map = sampleMap\<rparr>),
      MustCompile = Inr,
      ParseString = sampleParse,
      ParseFloat = sampleFloat,
      Negative = (\<lambda>v. v < 0),
      NewFollower =
        (\<lambda>f. if f = ''/var/log/nginx/access.log'' then Inr (Follower f)
             else Inl (Error ''no such file or directory''))\<rparr>"

definition sampleCfg :: NamespaceConfig where
  "sampleCfg =
     \<lparr>Name = ''nginx'',
      Format = ''$remote_user $request $status $body_bytes_sent $request_time'',
      SourceFiles = [''/var/log/nginx/access.log''],
      OrderedLabelNames = [''app''],
      OrderedLabelValues = [''web''],
      RelabelConfigs = [\<lparr>TargetLabel = ''user'', SourceValue = ''remote_user''\<rparr>]\<rparr>"

text \<open>The same namespace with a user rule that targets the label of a built-in rule.\<close>

definition overrideCfg :: NamespaceConfig where
  "overrideCfg =
     sampleCfg\<lparr>RelabelConfigs := [\<lparr>TargetLabel = ''method'', SourceValue = ''remote_user''\<rparr>]\<rparr>"

definition newMetrics :: "string list \<Rightarrow> real Metrics" where
  "newMetrics labels =
     \<lparr>countTotal = NewCounterVec labels,
      bytesTotal = NewValueVec labels,
      upstreamSeconds = NewValueVec labels,
      upstreamSecondsHist = NewValueVec labels,
      responseSeconds = NewValueVec labels,
      responseSecondsHist = NewValueVec labels,
      parseErrorsTotal = 0\<rparr>"

definition sampleMetrics :: "real Metrics" where
  "sampleMetrics = newMetrics (InitLabels sampleEnv sampleCfg)"

text \<open>The state in which the loop of the sample namespace reads its first line.\<close>

definition sampleStart :: "real LoopState" where
  "sampleStart = \<lparr>labelValues = [''web'', [], [], []], metrics = sampleMetrics\<rparr>"

text \<open>
  The states of that loop after the line of \<open>alice\<close>, and after a second line whose user
  is \<^verbatim>\<open>-\<close> or missing.
\<close>

definition afterOk :: "real LoopState" where
  "afterOk =
     \<lparr>labelValues = [''web'', ''GET'', ''200'', ''alice''],
      metrics = recorded sampleEnv okEntry [''web'', ''GET'', ''200'', ''alice''] sampleMetrics\<rparr>"

definition afterOkDash :: "real LoopState" where
  "afterOkDash =
     \<lparr>labelValues = [''web'', ''GET'', ''200'', ''alice''],
      metrics =
        recorded sampleEnv dashEntry [''web'', ''GET'', ''200'', ''alice''] (metrics afterOk)\<rparr>"

definition afterOkShort :: "real LoopState" where
  "afterOkShort =
     \<lparr>labelValues = [''web'', ''GET'', ''200'', ''alice''],
      metrics =
        recorded sampleEnv shortEntry [''web'', ''GET'', ''200'', ''alice''] (metrics afterOk)\<rparr>"

text \<open>The sample namespace with a second source file, which does not exist.\<close>

definition missingCfg :: NamespaceConfig where
  "missingCfg =
     sampleCfg\<lparr>SourceFiles := [''/var/log/nginx/access.log'', ''/var/log/nginx/missing.log'']\<rparr>"

definition sampleState :: "real NamespaceState" where
  "sampleState =
     \<lparr>nsConfig = sampleCfg, nsMetrics = sampleMetrics,
      loops = [(Follower ''/var/log/nginx/access.log'', [''web'', [], [], []])]\<rparr>"

section \<open>Facts about the loops\<close>

subsection \<open>The buffer of label values and the calls of the client\<close>

lemma copy_prefix:
  "n \<le> length xs \<Longrightarrow> n \<le> length ys \<Longrightarrow>
   fold (\<lambda>i l. l[i := xs ! i]) [0..<n] ys = take n xs @ drop n ys"
proof (induction n)
  case 0
  then show ?case by simp
next
  case (Suc n)
  then have "fold (\<lambda>i l. l[i := xs ! i]) [0..<Suc n] ys = (take n xs @ drop n ys)[n := xs ! n]"
    by simp
  also have "\<dots> = take n xs @ (drop n ys)[0 := xs ! n]"
    using Suc.prems by (simp add: list_update_append)
  also have "\<dots> = take (Suc n) xs @ drop (Suc n) ys"
    using Suc.prems by (simp add: take_Suc_conv_app_nth drop_Suc upd_conv_take_nth_drop  flip: drop_drop Cons_nth_drop_Suc)
  finally show ?case .
qed

lemma initLabelValues_eq:
  "initLabelValues static (length static + k) = static @ replicate k []"
  unfolding initLabelValues_def by (simp add: copy_prefix)

lemma relabelAt_length: "length (relabelAt entry rs off i lv) = length lv"
  by (simp add: relabelAt_def split: sum.splits)

lemma relabelAt_eq:
  "relabelAt entry rs off i lv =
     (case ruleValue (rs ! i) entry of None \<Rightarrow> lv | Some v \<Rightarrow> lv[i + off := v])"
  by (simp add: relabelAt_def ruleValue_def split: sum.splits)

lemma fold_relabelAt_length:
  "length (fold (relabelAt entry rs off) [0..<n] lv) = length lv"
  by (induction n) (simp_all add: relabelAt_length)

lemma fold_writes:
  assumes step: "\<And>i lv. f i lv = (case g i of None \<Rightarrow> lv | Some v \<Rightarrow> lv[i + off := v])"
  shows "j < length lv \<Longrightarrow>
         fold f [0..<n] lv ! j =
           (if off \<le> j \<and> j - off < n
            then (case g (j - off) of None \<Rightarrow> lv ! j | Some v \<Rightarrow> v)
            else lv ! j)"
proof (induction n)
  case 0
  then show ?case by simp
next
  case (Suc n)
  let ?prev = "fold f [0..<n] lv"
  have plen: "length ?prev = length lv"
    by (induction n) (simp_all add: step split: option.splits)
  have len: "j < length ?prev" using Suc.prems by (simp add: plen)
  have unfold: "fold f [0..<Suc n] lv = f n ?prev"
    by simp
  have cur: "f n ?prev = (case g n of None \<Rightarrow> ?prev | Some v \<Rightarrow> ?prev[n + off := v])"
    by (rule step)
  show ?case
  proof (cases "j = n + off")
    case True
    have "f n ?prev ! j = (case g n of None \<Rightarrow> ?prev ! j | Some v \<Rightarrow> v)"
      unfolding cur using len True by (cases "g n") simp_all
    moreover have "?prev ! j = lv ! j"
      using Suc True by simp
    ultimately show ?thesis unfolding unfold using True
      by (cases "g n") simp_all
  next
    case False
    have "f n ?prev ! j = ?prev ! j"
      unfolding cur using False by (cases "g n") simp_all
    moreover have "(off \<le> j \<and> j - off < Suc n) = (off \<le> j \<and> j - off < n)"
      using False by auto
    ultimately show ?thesis unfolding unfold using Suc by simp
  qed
qed

lemma fold_relabelAt_nth:
  "j < length lv \<Longrightarrow>
   fold (relabelAt entry rs off) [0..<n] lv ! j =
     (if off \<le> j \<and> j - off < n
      then (case ruleValue (rs ! (j - off)) entry of None \<Rightarrow> lv ! j | Some v \<Rightarrow> v)
      else lv ! j)"
  by (rule fold_writes) (rule relabelAt_eq)

lemma relabel_length: "length (relabel entry rs off lv) = length lv"
  by (simp add: relabel_def fold_relabelAt_length)

lemma relabel_nth:
  "i < length rs \<Longrightarrow> length lv = off + length rs \<Longrightarrow>
   relabel entry rs off lv ! (off + i) =
     (case ruleValue (rs ! i) entry of None \<Rightarrow> lv ! (off + i) | Some v \<Rightarrow> v)"
  by (simp add: relabel_def fold_relabelAt_nth)

lemma relabelAt_take: "take off (relabelAt entry rs off i lv) = take off lv"
  by (simp add: relabelAt_eq split: option.splits)

lemma fold_relabelAt_take:
  "take off (fold (relabelAt entry rs off) [0..<n] lv) = take off lv"
  by (induction n) (simp_all add: relabelAt_take)

lemma relabel_take: "take off (relabel entry rs off lv) = take off lv"
  by (simp add: relabel_def fold_relabelAt_take)

lemma fold_snoc_map: "fold (\<lambda>x acc. acc @ [f x]) xs acc = acc @ map f xs"
  by (induction xs arbitrary: acc) simp_all

lemma map_nth_upt: "map (\<lambda>i. f (xs ! i)) [0..<length xs] = map f xs"
  by (intro nth_equalityI) simp_all

lemma InitLabels_eq:
  "InitLabels env cfg =
     OrderedLabelNames cfg @ map TargetLabel (DefaultRelabelings env)
       @ map TargetLabel (RelabelConfigs cfg)"
  by (simp add: InitLabels_def Let_def fold_snoc_map map_nth_upt)

lemma andThen_Inl [simp]: "andThen (Inl err) f = Inl err"
  by (simp add: andThen_def)

lemma andThen_Inr [simp]: "andThen (Inr x) f = f x"
  by (simp add: andThen_def)

lemma andThen_eq_Inr: "andThen r f = Inr y \<longleftrightarrow> (\<exists>x. r = Inr x \<and> f x = Inr y)"
  by (cases r) simp_all

lemma grow_Nil [simp]: "grow vec lvs [] = vec"
  by (simp add: grow_def)

lemma series_grow: "series (grow vec lvs vs) = (series vec)(lvs := series vec lvs @ vs)"
  by (simp add: grow_def)

lemma variableLabels_grow [simp]: "variableLabels (grow vec lvs vs) = variableLabels vec"
  by (simp add: grow_def)

lemma CounterInc_fits:
  "length lvs = length (variableLabels vec) \<Longrightarrow>
   CounterInc vec lvs = Inr (vec\<lparr>series := (series vec)(lvs := series vec lvs + 1)\<rparr>)"
  by (simp add: CounterInc_def WithLabelValues_def)

lemma CounterInc_misfit:
  "length lvs \<noteq> length (variableLabels vec) \<Longrightarrow>
   CounterInc vec lvs = Inl (Error ''inconsistent label cardinality'')"
  by (simp add: CounterInc_def WithLabelValues_def)

lemma CounterAdd_fits:
  "length lvs = length (variableLabels vec) \<Longrightarrow>
   CounterAdd negative vec lvs v =
     (if negative v then Inl (Error ''counter cannot decrease in value'')
      else Inr (grow vec lvs [v]))"
  by (simp add: CounterAdd_def WithLabelValues_def grow_def)

lemma CounterAdd_misfit:
  "length lvs \<noteq> length (variableLabels vec) \<Longrightarrow>
   CounterAdd negative vec lvs v = Inl (Error ''inconsistent label cardinality'')"
  by (simp add: CounterAdd_def WithLabelValues_def)

lemma Observe_fits:
  "length lvs = length (variableLabels vec) \<Longrightarrow> Observe vec lvs v = Inr (grow vec lvs [v])"
  by (simp add: Observe_def WithLabelValues_def grow_def)

lemma Observe_misfit:
  "length lvs \<noteq> length (variableLabels vec) \<Longrightarrow>
   Observe vec lvs v = Inl (Error ''inconsistent label cardinality'')"
  by (simp add: Observe_def WithLabelValues_def)

lemma EntryFloatField_fieldValues:
  "fieldValues env entry name =
     (case EntryFloatField (ParseFloat env) entry name of Inl err \<Rightarrow> [] | Inr v \<Rightarrow> [v])"
  by (simp add: EntryFloatField_def EntryField_def fieldValues_def split: option.splits)

lemma fieldValues_Inl:
  "EntryFloatField (ParseFloat env) entry name = Inl err \<Longrightarrow> fieldValues env entry name = []"
  by (simp add: EntryFloatField_fieldValues)

lemma fieldValues_Inr:
  "EntryFloatField (ParseFloat env) entry name = Inr v \<Longrightarrow> fieldValues env entry name = [v]"
  by (simp add: EntryFloatField_fieldValues)

lemma bytesAccepted_iff:
  "bytesAccepted env entry \<longleftrightarrow>
     (case EntryFloatField (ParseFloat env) entry ''body_bytes_sent'' of
        Inl err \<Rightarrow> True | Inr v \<Rightarrow> \<not> Negative env v)"
  by (simp add: bytesAccepted_def EntryFloatField_fieldValues split: sum.splits)

lemma updateMetrics_ok:
  assumes "accepts m lvs" and "bytesAccepted env entry"
  shows "updateMetrics env entry lvs m = Inr (recorded env entry lvs m)"
proof -
  have fits: "length lvs = length (variableLabels (countTotal m))"
    "length lvs = length (variableLabels (bytesTotal m))"
    "length lvs = length (variableLabels (upstreamSeconds m))"
    "length lvs = length (variableLabels (upstreamSecondsHist m))"
    "length lvs = length (variableLabels (responseSeconds m))"
    "length lvs = length (variableLabels (responseSecondsHist m))"
    using assms(1) by (simp_all add: accepts_def)
  show ?thesis
    using assms(2) fits
    by (cases "EntryFloatField (ParseFloat env) entry ''body_bytes_sent''";
        cases "EntryFloatField (ParseFloat env) entry ''upstream_response_time''";
        cases "EntryFloatField (ParseFloat env) entry ''request_time''")
       (simp_all add: updateMetrics_def recorded_def bytesAccepted_iff CounterInc_fits
          CounterAdd_fits Observe_fits fieldValues_Inl fieldValues_Inr Let_def)
qed

lemma updateMetrics_negative:
  assumes "accepts m lvs" and "\<not> bytesAccepted env entry"
  shows "updateMetrics env entry lvs m = Inl (Error ''counter cannot decrease in value'')"
proof -
  have fits: "length lvs = length (variableLabels (countTotal m))"
    "length lvs = length (variableLabels (bytesTotal m))"
    using assms(1) by (simp_all add: accepts_def)
  show ?thesis
    using assms(2) fits
    by (cases "EntryFloatField (ParseFloat env) entry ''body_bytes_sent''")
       (simp_all add: updateMetrics_def bytesAccepted_iff CounterInc_fits CounterAdd_fits Let_def)
qed

subsection \<open>One line and the loop over the lines\<close>

lemma CounterInc_Inr:
  "CounterInc vec lvs = Inr vec' \<Longrightarrow>
   vec' = vec\<lparr>series := (series vec)(lvs := series vec lvs + 1)\<rparr>"
  by (cases "length lvs = length (variableLabels vec)")
     (simp_all add: CounterInc_fits CounterInc_misfit)

lemma CounterAdd_Inr:
  "CounterAdd negative vec lvs v = Inr vec' \<Longrightarrow> vec' = grow vec lvs [v]"
  by (cases "length lvs = length (variableLabels vec)")
     (simp_all add: CounterAdd_fits CounterAdd_misfit split: if_splits)

lemma Observe_Inr: "Observe vec lvs v = Inr vec' \<Longrightarrow> vec' = grow vec lvs [v]"
  by (cases "length lvs = length (variableLabels vec)")
     (simp_all add: Observe_fits Observe_misfit)

lemma updateMetrics_accepted:
  assumes inc: "CounterInc (countTotal m) lvs =
                  Inr ((countTotal m)\<lparr>series := (series (countTotal m))
                                         (lvs := series (countTotal m) lvs + 1)\<rparr>)"
      and add: "\<And>v. \<not> Negative env v \<Longrightarrow>
                  CounterAdd (Negative env) (bytesTotal m) lvs v = Inr (grow (bytesTotal m) lvs [v])"
      and obs: "\<And>v. Observe (upstreamSeconds m) lvs v = Inr (grow (upstreamSeconds m) lvs [v])"
               "\<And>v. Observe (upstreamSecondsHist m) lvs v = Inr (grow (upstreamSecondsHist m) lvs [v])"
               "\<And>v. Observe (responseSeconds m) lvs v = Inr (grow (responseSeconds m) lvs [v])"
               "\<And>v. Observe (responseSecondsHist m) lvs v = Inr (grow (responseSecondsHist m) lvs [v])"
      and ok: "bytesAccepted env entry"
  shows "updateMetrics env entry lvs m = Inr (recorded env entry lvs m)"
  using ok
  by (cases "EntryFloatField (ParseFloat env) entry ''body_bytes_sent''";
      cases "EntryFloatField (ParseFloat env) entry ''upstream_response_time''";
      cases "EntryFloatField (ParseFloat env) entry ''request_time''")
     (simp_all add: updateMetrics_def recorded_def bytesAccepted_iff inc add obs
        fieldValues_Inl fieldValues_Inr Let_def)

lemma updateMetrics_returned:
  fixes m :: "'f Metrics"
  assumes inc: "\<And>c. CounterInc (countTotal m) lvs = Inr c \<Longrightarrow>
                  c = (countTotal m)\<lparr>series := (series (countTotal m))
                                        (lvs := series (countTotal m) lvs + 1)\<rparr>"
      and add: "\<And>v b. CounterAdd (Negative env) (bytesTotal m) lvs v = Inr b \<Longrightarrow>
                  b = grow (bytesTotal m) lvs [v]"
      and obs: "\<And>(vec :: 'f list Vec) v w. Observe vec lvs v = Inr w \<Longrightarrow> w = grow vec lvs [v]"
      and run: "updateMetrics env entry lvs m = Inr m'"
  shows "m' = recorded env entry lvs m"
  using run
  by (cases "EntryFloatField (ParseFloat env) entry ''body_bytes_sent''";
      cases "EntryFloatField (ParseFloat env) entry ''upstream_response_time''";
      cases "EntryFloatField (ParseFloat env) entry ''request_time''")
     (auto simp: updateMetrics_def andThen_eq_Inr Let_def recorded_def fieldValues_Inl
        fieldValues_Inr dest!: inc add obs)

lemma updateMetrics_Inr:
  assumes "updateMetrics env entry lvs m = Inr m'"
  shows "m' = recorded env entry lvs m"
  using CounterInc_Inr CounterAdd_Inr Observe_Inr assms by (rule updateMetrics_returned)

lemma accepts_recorded [simp]: "accepts (recorded env entry lvs m) xs = accepts m xs"
  by (simp add: accepts_def recorded_def)

lemma countTotal_recorded:
  "series (countTotal (recorded env entry lvs m)) =
     (series (countTotal m))(lvs := series (countTotal m) lvs + 1)"
  by (simp add: recorded_def)

lemma bytesTotal_recorded:
  "series (bytesTotal (recorded env entry lvs m)) =
     (series (bytesTotal m))
       (lvs := series (bytesTotal m) lvs @ fieldValues env entry ''body_bytes_sent'')"
  by (simp add: recorded_def series_grow)

lemma upstreamSeconds_recorded:
  "series (upstreamSeconds (recorded env entry lvs m)) =
     (series (upstreamSeconds m))
       (lvs := series (upstreamSeconds m) lvs @ fieldValues env entry ''upstream_response_time'')"
  by (simp add: recorded_def series_grow)

lemma upstreamSecondsHist_recorded:
  "series (upstreamSecondsHist (recorded env entry lvs m)) =
     (series (upstreamSecondsHist m))
       (lvs := series (upstreamSecondsHist m) lvs
                 @ fieldValues env entry ''upstream_response_time'')"
  by (simp add: recorded_def series_grow)

lemma responseSeconds_recorded:
  "series (responseSeconds (recorded env entry lvs m)) =
     (series (responseSeconds m))
       (lvs := series (responseSeconds m) lvs @ fieldValues env entry ''request_time'')"
  by (simp add: recorded_def series_grow)

lemma responseSecondsHist_recorded:
  "series (responseSecondsHist (recorded env entry lvs m)) =
     (series (responseSecondsHist m))
       (lvs := series (responseSecondsHist m) lvs @ fieldValues env entry ''request_time'')"
  by (simp add: recorded_def series_grow)

lemma parseErrorsTotal_recorded:
  "parseErrorsTotal (recorded env entry lvs m) = parseErrorsTotal m"
  by (simp add: recorded_def)

lemma updateMetrics_agree:
  assumes "entry2 ''body_bytes_sent'' = entry ''body_bytes_sent''"
      and "entry2 ''upstream_response_time'' = entry ''upstream_response_time''"
      and "entry2 ''request_time'' = entry ''request_time''"
  shows "updateMetrics env entry2 lvs m = updateMetrics env entry lvs m"
proof -
  have "EntryFloatField (ParseFloat env) entry2 ''body_bytes_sent'' =
        EntryFloatField (ParseFloat env) entry ''body_bytes_sent''"
    and "EntryFloatField (ParseFloat env) entry2 ''upstream_response_time'' =
        EntryFloatField (ParseFloat env) entry ''upstream_response_time''"
    and "EntryFloatField (ParseFloat env) entry2 ''request_time'' =
        EntryFloatField (ParseFloat env) entry ''request_time''"
    by (simp_all only: EntryFloatField_def EntryField_def assms)
  then show ?thesis by (simp only: updateMetrics_def)
qed

lemma processLine_error:
  "ParseString env (Format nsCfg) text = Inl err \<Longrightarrow>
   processLine env nsCfg text st =
     Inr (st\<lparr>metrics := (metrics st)\<lparr>parseErrorsTotal := parseErrorsTotal (metrics st) + 1\<rparr>\<rparr>)"
  by (simp add: processLine_def)

lemma processLine_parsed:
  "ParseString env (Format nsCfg) text = Inr entry \<Longrightarrow>
   processLine env nsCfg text st =
     andThen
       (updateMetrics env entry
          (relabel entry (relabelings env nsCfg) (length (OrderedLabelValues nsCfg))
             (labelValues st))
          (metrics st))
       (\<lambda>m. Inr \<lparr>labelValues =
                   relabel entry (relabelings env nsCfg) (length (OrderedLabelValues nsCfg))
                     (labelValues st),
                 metrics = m\<rparr>)"
  by (simp add: processLine_def Let_def)

lemma processLine_Inr:
  assumes "ParseString env (Format nsCfg) text = Inr entry"
      and "processLine env nsCfg text st = Inr st'"
  shows "labelValues st' =
           relabel entry (relabelings env nsCfg) (length (OrderedLabelValues nsCfg))
             (labelValues st)"
    and "updateMetrics env entry (labelValues st') (metrics st) = Inr (metrics st')"
    and "metrics st' = recorded env entry (labelValues st') (metrics st)"
proof -
  from assms(2) obtain m where
    m: "updateMetrics env entry
          (relabel entry (relabelings env nsCfg) (length (OrderedLabelValues nsCfg))
             (labelValues st)) (metrics st) = Inr m"
    and st': "st' = \<lparr>labelValues =
                   relabel entry (relabelings env nsCfg) (length (OrderedLabelValues nsCfg))
                     (labelValues st),
                 metrics = m\<rparr>"
    unfolding processLine_parsed [OF assms(1)] andThen_eq_Inr by auto
  show "labelValues st' =
           relabel entry (relabelings env nsCfg) (length (OrderedLabelValues nsCfg))
             (labelValues st)"
    by (simp add: st')
  show "updateMetrics env entry (labelValues st') (metrics st) = Inr (metrics st')"
    using m by (simp add: st')
  then show "metrics st' = recorded env entry (labelValues st') (metrics st)"
    by (rule updateMetrics_Inr)
qed

lemma processLine_ok:
  assumes "ParseString env (Format nsCfg) text = Inr entry"
      and "accepts (metrics st) (labelValues st)" and "bytesAccepted env entry"
  shows "processLine env nsCfg text st =
     Inr \<lparr>labelValues =
            relabel entry (relabelings env nsCfg) (length (OrderedLabelValues nsCfg))
              (labelValues st),
          metrics =
            recorded env entry
              (relabel entry (relabelings env nsCfg) (length (OrderedLabelValues nsCfg))
                 (labelValues st))
              (metrics st)\<rparr>"
proof -
  have "accepts (metrics st)
          (relabel entry (relabelings env nsCfg) (length (OrderedLabelValues nsCfg))
             (labelValues st))"
    using assms(2) by (simp add: accepts_def relabel_length)
  from updateMetrics_ok [OF this assms(3)] show ?thesis
    by (simp add: processLine_parsed [OF assms(1)])
qed

lemma processLine_negative:
  assumes "ParseString env (Format nsCfg) text = Inr entry"
      and "accepts (metrics st) (labelValues st)" and "\<not> bytesAccepted env entry"
  shows "processLine env nsCfg text st = Inl (Error ''counter cannot decrease in value'')"
proof -
  have "accepts (metrics st)
          (relabel entry (relabelings env nsCfg) (length (OrderedLabelValues nsCfg))
             (labelValues st))"
    using assms(2) by (simp add: accepts_def relabel_length)
  from updateMetrics_negative [OF this assms(3)] show ?thesis
    by (simp add: processLine_parsed [OF assms(1)])
qed

lemma processLine_length:
  "processLine env nsCfg text st = Inr st' \<Longrightarrow>
   length (labelValues st') = length (labelValues st)"
proof (cases "ParseString env (Format nsCfg) text")
  case (Inl err)
  assume "processLine env nsCfg text st = Inr st'"
  with Inl show ?thesis by (auto simp: processLine_error)
next
  case (Inr entry)
  assume "processLine env nsCfg text st = Inr st'"
  from processLine_Inr(1) [OF Inr this] show ?thesis by (simp add: relabel_length)
qed

lemma processLine_take:
  "processLine env nsCfg text st = Inr st' \<Longrightarrow>
   take (length (OrderedLabelValues nsCfg)) (labelValues st') =
   take (length (OrderedLabelValues nsCfg)) (labelValues st)"
proof (cases "ParseString env (Format nsCfg) text")
  case (Inl err)
  assume "processLine env nsCfg text st = Inr st'"
  with Inl show ?thesis by (auto simp: processLine_error)
next
  case (Inr entry)
  assume "processLine env nsCfg text st = Inr st'"
  from processLine_Inr(1) [OF Inr this] show ?thesis by (simp add: relabel_take)
qed

lemma processLine_accepts:
  "processLine env nsCfg text st = Inr st' \<Longrightarrow> accepts (metrics st') xs = accepts (metrics st) xs"
proof (cases "ParseString env (Format nsCfg) text")
  case (Inl err)
  assume "processLine env nsCfg text st = Inr st'"
  with Inl show ?thesis by (auto simp: processLine_error accepts_def)
next
  case (Inr entry)
  assume "processLine env nsCfg text st = Inr st'"
  from processLine_Inr(3) [OF Inr this] show ?thesis by simp
qed

lemma processLines_append:
  "processLines env nsCfg (xs @ ys) st =
     andThen (processLines env nsCfg xs st) (processLines env nsCfg ys)"
proof (induction xs arbitrary: st)
  case Nil
  show ?case by simp
next
  case (Cons x xs)
  show ?case
    by (cases "processLine env nsCfg x st") (simp_all add: Cons)
qed

lemma processSourceFile_Nil:
  "processSourceFile env nsCfg [] m =
     Inr \<lparr>labelValues = OrderedLabelValues nsCfg @ replicate (length (relabelings env nsCfg)) [],
          metrics = m\<rparr>"
  by (simp add: processSourceFile_def Let_def initLabelValues_eq)

lemma processSourceFile_append:
  "processSourceFile env nsCfg (lines @ rest) m =
     andThen (processSourceFile env nsCfg lines m) (processLines env nsCfg rest)"
  by (simp add: processSourceFile_def Let_def processLines_append)

lemma processSourceFile_snoc:
  "processSourceFile env nsCfg (lines @ [text]) m =
     andThen (processSourceFile env nsCfg lines m) (processLine env nsCfg text)"
proof -
  have "processLines env nsCfg [text] = processLine env nsCfg text"
    by (rule ext) (simp add: andThen_def split: sum.splits)
  then show ?thesis by (simp add: processSourceFile_append)
qed

lemma processSourceFile_step:
  "processSourceFile env nsCfg lines m = Inr st \<Longrightarrow>
   processSourceFile env nsCfg (lines @ [text]) m = processLine env nsCfg text st"
  by (simp add: processSourceFile_snoc)

lemma processSourceFile_snoc_Inr:
  "processSourceFile env nsCfg (lines @ [text]) m = Inr st' \<Longrightarrow>
   \<exists>st. processSourceFile env nsCfg lines m = Inr st \<and> processLine env nsCfg text st = Inr st'"
  by (simp add: processSourceFile_snoc andThen_eq_Inr)

lemma processSourceFile_length:
  "processSourceFile env nsCfg lines m = Inr st \<Longrightarrow>
   length (labelValues st) = length (OrderedLabelValues nsCfg) + length (relabelings env nsCfg)"
proof (induction lines arbitrary: st rule: rev_induct)
  case Nil
  then show ?case by (auto simp: processSourceFile_Nil)
next
  case (snoc l ls)
  from processSourceFile_snoc_Inr [OF snoc.prems] obtain st0 where
    "processSourceFile env nsCfg ls m = Inr st0" and "processLine env nsCfg l st0 = Inr st"
    by blast
  with snoc.IH [of st0] processLine_length [of env nsCfg l st0 st] show ?case by simp
qed

lemma processSourceFile_take:
  "processSourceFile env nsCfg lines m = Inr st \<Longrightarrow>
   take (length (OrderedLabelValues nsCfg)) (labelValues st) = OrderedLabelValues nsCfg"
proof (induction lines arbitrary: st rule: rev_induct)
  case Nil
  then show ?case by (auto simp: processSourceFile_Nil)
next
  case (snoc l ls)
  from processSourceFile_snoc_Inr [OF snoc.prems] obtain st0 where
    "processSourceFile env nsCfg ls m = Inr st0" and "processLine env nsCfg l st0 = Inr st"
    by blast
  with snoc.IH [of st0] processLine_take [of env nsCfg l st0 st] show ?case by simp
qed

lemma processSourceFile_accepts:
  "processSourceFile env nsCfg lines m = Inr st \<Longrightarrow> accepts (metrics st) xs = accepts m xs"
proof (induction lines arbitrary: st rule: rev_induct)
  case Nil
  then show ?case by (auto simp: processSourceFile_Nil)
next
  case (snoc l ls)
  from processSourceFile_snoc_Inr [OF snoc.prems] obtain st0 where
    "processSourceFile env nsCfg ls m = Inr st0" and "processLine env nsCfg l st0 = Inr st"
    by blast
  with snoc.IH [of st0] processLine_accepts [of env nsCfg l st0 st] show ?case by simp
qed

subsection \<open>Positions, label names, starting and running\<close>

lemma position_step:
  assumes "i < length (relabelings env nsCfg)"
      and "ParseString env (Format nsCfg) text = Inr entry"
      and "processSourceFile env nsCfg lines m = Inr st"
      and "processSourceFile env nsCfg (lines @ [text]) m = Inr st'"
  shows "labelValues st' ! (length (OrderedLabelValues nsCfg) + i) =
           (case ruleValue (relabelings env nsCfg ! i) entry of
              None \<Rightarrow> labelValues st ! (length (OrderedLabelValues nsCfg) + i)
            | Some v \<Rightarrow> v)"
proof -
  have step: "processLine env nsCfg text st = Inr st'"
    using assms(3,4) by (simp add: processSourceFile_snoc)
  have len: "length (labelValues st) =
      length (OrderedLabelValues nsCfg) + length (relabelings env nsCfg)"
    using assms(3) by (rule processSourceFile_length)
  from relabel_nth [OF assms(1) len] show ?thesis
    by (simp add: processLine_Inr(1) [OF assms(2) step])
qed

lemma ruleHistory_snoc_error:
  "ParseString env (Format nsCfg) text = Inl err \<Longrightarrow>
   ruleHistory env nsCfg i (lines @ [text]) = ruleHistory env nsCfg i lines"
  by (simp add: ruleHistory_def)

lemma ruleHistory_snoc_parsed:
  "ParseString env (Format nsCfg) text = Inr entry \<Longrightarrow>
   ruleHistory env nsCfg i (lines @ [text]) =
     ruleHistory env nsCfg i lines
       @ (case ruleValue (relabelings env nsCfg ! i) entry of None \<Rightarrow> [] | Some v \<Rightarrow> [v])"
  by (simp add: ruleHistory_def)

lemma position_history:
  assumes "i < length (relabelings env nsCfg)"
  shows "processSourceFile env nsCfg lines m = Inr st \<Longrightarrow>
         labelValues st ! (length (OrderedLabelValues nsCfg) + i) =
           (if ruleHistory env nsCfg i lines = [] then []
            else last (ruleHistory env nsCfg i lines))"
proof (induction lines arbitrary: st rule: rev_induct)
  case Nil
  then show ?case
    using assms by (auto simp: processSourceFile_Nil ruleHistory_def nth_append)
next
  case (snoc l ls)
  from processSourceFile_snoc_Inr [OF snoc.prems] obtain st0 where
    st0: "processSourceFile env nsCfg ls m = Inr st0"
    and step: "processLine env nsCfg l st0 = Inr st"
    by blast
  note prev = snoc.IH [OF st0]
  show ?case
  proof (cases "ParseString env (Format nsCfg) l")
    case (Inl err)
    with step have "labelValues st = labelValues st0"
      by (auto simp: processLine_error)
    with prev show ?thesis
      by (simp add: ruleHistory_snoc_error [OF Inl])
  next
    case (Inr entry)
    from position_step [OF assms Inr st0 snoc.prems] prev show ?thesis
      by (cases "ruleValue (relabelings env nsCfg ! i) entry")
         (simp_all add: ruleHistory_snoc_parsed [OF Inr])
  qed
qed

lemma processSourceFile_buffer:
  assumes "processSourceFile env nsCfg lines m = Inr st"
  shows "labelValues st =
     OrderedLabelValues nsCfg
       @ map (\<lambda>i. labelValues st ! (length (OrderedLabelValues nsCfg) + i))
           [0..<length (relabelings env nsCfg)]"
proof -
  let ?off = "length (OrderedLabelValues nsCfg)"
  have len: "length (labelValues st) = ?off + length (relabelings env nsCfg)"
    using assms by (rule processSourceFile_length)
  have "drop ?off (labelValues st) =
        map (\<lambda>i. labelValues st ! (?off + i)) [0..<length (relabelings env nsCfg)]"
    using len by (intro nth_equalityI) simp_all
  moreover have "take ?off (labelValues st) = OrderedLabelValues nsCfg"
    using assms by (rule processSourceFile_take)
  ultimately show ?thesis
    using append_take_drop_id [of ?off "labelValues st"] by simp
qed

lemma Init_labels_distinct:
  "MustCompile env cfg0 = Inr nsCfg \<Longrightarrow> distinct (InitLabels env nsCfg) \<Longrightarrow>
   Init env cfg0 =
     Inr (nsCfg,
          \<lparr>countTotal = NewCounterVec (InitLabels env nsCfg),
           bytesTotal = NewValueVec (InitLabels env nsCfg),
           upstreamSeconds = NewValueVec (InitLabels env nsCfg),
           upstreamSecondsHist = NewValueVec (InitLabels env nsCfg),
           responseSeconds = NewValueVec (InitLabels env nsCfg),
           responseSecondsHist = NewValueVec (InitLabels env nsCfg),
           parseErrorsTotal = 0\<rparr>)"
  by (simp add: Init_def Let_def MustRegister_def NewCounterVec_def NewValueVec_def)

lemma Init_labels_repeated:
  "MustCompile env cfg0 = Inr nsCfg \<Longrightarrow> \<not> distinct (InitLabels env nsCfg) \<Longrightarrow>
   Init env cfg0 = Inl (Error ''duplicate label names'')"
  by (simp add: Init_def Let_def MustRegister_def NewCounterVec_def NewValueVec_def)

lemma Init_Inr:
  assumes "Init env cfg0 = Inr (nsCfg, M)"
  shows "MustCompile env cfg0 = Inr nsCfg"
    and "distinct (InitLabels env nsCfg)"
    and "variableLabels (countTotal M) = InitLabels env nsCfg"
    and "variableLabels (bytesTotal M) = InitLabels env nsCfg"
    and "variableLabels (upstreamSeconds M) = InitLabels env nsCfg"
    and "variableLabels (upstreamSecondsHist M) = InitLabels env nsCfg"
    and "variableLabels (responseSeconds M) = InitLabels env nsCfg"
    and "variableLabels (responseSecondsHist M) = InitLabels env nsCfg"
proof -
  from assms obtain cfg where c: "MustCompile env cfg0 = Inr cfg"
    by (cases "MustCompile env cfg0") (simp_all add: Init_def)
  have d: "distinct (InitLabels env cfg)"
  proof (rule ccontr)
    assume "\<not> distinct (InitLabels env cfg)"
    from Init_labels_repeated [OF c this] assms show False by simp
  qed
  from Init_labels_distinct [OF c d] assms have eq: "cfg = nsCfg"
    and M: "M = \<lparr>countTotal = NewCounterVec (InitLabels env nsCfg),
           bytesTotal = NewValueVec (InitLabels env nsCfg),
           upstreamSeconds = NewValueVec (InitLabels env nsCfg),
           upstreamSecondsHist = NewValueVec (InitLabels env nsCfg),
           responseSeconds = NewValueVec (InitLabels env nsCfg),
           responseSecondsHist = NewValueVec (InitLabels env nsCfg),
           parseErrorsTotal = 0\<rparr>"
    by simp_all
  show "MustCompile env cfg0 = Inr nsCfg" using c eq by simp
  show "distinct (InitLabels env nsCfg)" using d eq by simp
  show "variableLabels (countTotal M) = InitLabels env nsCfg"
    and "variableLabels (bytesTotal M) = InitLabels env nsCfg"
    and "variableLabels (upstreamSeconds M) = InitLabels env nsCfg"
    and "variableLabels (upstreamSecondsHist M) = InitLabels env nsCfg"
    and "variableLabels (responseSeconds M) = InitLabels env nsCfg"
    and "variableLabels (responseSecondsHist M) = InitLabels env nsCfg"
    by (simp_all add: M NewCounterVec_def NewValueVec_def)
qed

lemma labels_of_rules:
  assumes "map TargetLabel (NewRelabelings env (RelabelConfigs nsCfg)) =
           map TargetLabel (RelabelConfigs nsCfg)"
  shows "InitLabels env nsCfg = OrderedLabelNames nsCfg @ map TargetLabel (relabelings env nsCfg)"
  by (simp add: InitLabels_eq relabelings_def assms)


lemma startLoops_failure:
  "f \<in> set fs \<Longrightarrow> NewFollower env f = Inl err \<Longrightarrow> \<exists>e. startLoops env cfg fs = Inl e"
proof (induction fs)
  case Nil
  then show ?case by simp
next
  case (Cons g gs)
  show ?case
  proof (cases "NewFollower env g")
    case (Inl e)
    then show ?thesis by simp
  next
    case (Inr t)
    with Cons have "\<exists>e. startLoops env cfg gs = Inl e" by auto
    with Inr show ?thesis by auto
  qed
qed

lemma processNamespace_failure:
  assumes "Init env cfg0 = Inr (cfg, M)" and "f \<in> set (SourceFiles cfg)"
      and "NewFollower env f = Inl err"
  shows "\<exists>e. processNamespace env cfg0 = Inl e"
  using startLoops_failure [OF assms(2,3), of cfg] assms(1)
  by (auto simp: processNamespace_def)

lemma startNamespaces_failure:
  "cfg0 \<in> set nss \<Longrightarrow> processNamespace env cfg0 = Inl e0 \<Longrightarrow>
   \<exists>e. startNamespaces env nss = Panicked e"
proof (induction nss)
  case Nil
  then show ?case by simp
next
  case (Cons c cs)
  show ?case
  proof (cases "processNamespace env c")
    case (Inl e)
    then show ?thesis by simp
  next
    case (Inr s)
    with Cons have "\<exists>e. startNamespaces env cs = Panicked e" by auto
    with Inr show ?thesis by auto
  qed
qed

lemma run_Panicked: "run env (Panicked e) evs = Panicked e"
  by (induction evs) (simp_all add: run_def)

lemma run_append: "run env p (evs1 @ evs2) = run env (run env p evs1) evs2"
  by (simp add: run_def)

lemma run_Cons: "run env p (ev # evs) = run env (deliver env p ev) evs"
  by (simp add: run_def)

lemma deliver_shape:
  "deliver env (Running nss) ev = Running nss' \<Longrightarrow> shape nss' = shape nss"
proof (cases ev)
  case (Line n k l)
  assume "deliver env (Running nss) ev = Running nss'"
  with Line show ?thesis
    by (auto simp: shape_def Let_def map_update list_update_same_conv
             split: if_splits sum.splits)
next
  case (Failed n k err)
  assume "deliver env (Running nss) ev = Running nss'"
  with Failed show ?thesis
    by (auto split: if_splits)
qed

lemma run_shape:
  "run env (Running nss) evs = Running nss' \<Longrightarrow> shape nss' = shape nss"
proof (induction evs arbitrary: nss)
  case Nil
  then show ?case by (simp add: run_def)
next
  case (Cons ev evs)
  show ?case
  proof (cases "deliver env (Running nss) ev")
    case (Running nss1)
    with Cons.prems have "run env (Running nss1) evs = Running nss'"
      by (simp add: run_Cons)
    from Cons.IH [OF this] deliver_shape [OF Running] show ?thesis by simp
  next
    case (Panicked e)
    with Cons.prems show ?thesis by (simp add: run_Cons run_Panicked)
  qed
qed

lemma shape_loop:
  "shape nss' = shape nss \<Longrightarrow> n < length nss \<Longrightarrow> k < length (loops (nss ! n)) \<Longrightarrow>
   n < length nss' \<and> k < length (loops (nss' ! n))"
proof -
  assume a: "shape nss' = shape nss" and n: "n < length nss" and k: "k < length (loops (nss ! n))"
  from a have len: "length nss' = length nss"
    unfolding shape_def by (rule map_eq_imp_length_eq)
  from a n len have "shape nss' ! n = shape nss ! n" by simp
  with n len have "length (loops (nss' ! n)) = length (loops (nss ! n))"
    by (simp add: shape_def)
  with n k len show ?thesis by simp
qed

subsection \<open>The sample namespace, evaluated\<close>

lemma sampleParse_simps:
  "ParseString sampleEnv fmt okLine = Inr okEntry"
  "ParseString sampleEnv fmt dashLine = Inr dashEntry"
  "ParseString sampleEnv fmt shortLine = Inr shortEntry"
  "ParseString sampleEnv fmt negLine = Inr negEntry"
  "ParseString sampleEnv fmt ''garbage'' = Inl (Error ''access log line does not match given format'')"
  by (simp_all add: sampleEnv_def sampleParse_def okLine_def dashLine_def shortLine_def negLine_def)

lemma sample_MustCompile: "MustCompile sampleEnv c = Inr c"
  by (simp add: sampleEnv_def)

lemma sample_rules:
  "relabelings sampleEnv sampleCfg =
     [\<lparr>TargetLabel = ''method'', SourceValue = ''request'', Map = Inr\<rparr>,
      \<lparr>TargetLabel = ''status'', SourceValue = ''status'', Map = Inr\<rparr>,
      \<lparr>TargetLabel = ''user'', SourceValue = ''remote_user'', Map = sampleMap\<rparr>]"
  by (simp add: relabelings_def sampleEnv_def sampleCfg_def)

lemma sample_targets:
  "map TargetLabel (NewRelabelings sampleEnv cs) = map TargetLabel cs"
  by (simp add: sampleEnv_def comp_def)

lemma sample_labels: "InitLabels sampleEnv sampleCfg = [''app'', ''method'', ''status'', ''user'']"
  by (simp add: labels_of_rules [OF sample_targets] sample_rules) (simp add: sampleCfg_def)

lemma sample_Init: "Init sampleEnv sampleCfg = Inr (sampleCfg, sampleMetrics)"
  using Init_labels_distinct [OF sample_MustCompile, of sampleCfg]
  by (simp add: sample_labels sampleMetrics_def newMetrics_def)

lemma sample_off: "length (OrderedLabelValues sampleCfg) = Suc 0"
  by (simp add: sampleCfg_def)

lemma sample_start:
  "processSourceFile sampleEnv sampleCfg [] m = Inr \<lparr>labelValues = [''web'', [], [], []], metrics = m\<rparr>"
  by (simp add: processSourceFile_Nil sample_rules) (simp add: sampleCfg_def)

lemma relabel_three:
  "relabel entry [r0, r1, r2] off lv =
     relabelAt entry [r0, r1, r2] off (Suc (Suc 0)) (relabelAt entry [r0, r1, r2] off (Suc 0)
       (relabelAt entry [r0, r1, r2] off 0 lv))"
  by (simp add: relabel_def upt_rec)

lemma sample_ok:
  "relabel okEntry (relabelings sampleEnv sampleCfg) (Suc 0) [''web'', a, b, c] =
     [''web'', ''GET'', ''200'', ''alice'']"
  by (simp add: sample_rules relabel_three relabelAt_def EntryField_def okEntry_def sampleMap_def)

lemma sample_dash:
  "relabel dashEntry (relabelings sampleEnv sampleCfg) (Suc 0) [''web'', a, b, c] =
     [''web'', ''GET'', ''200'', c]"
  by (simp add: sample_rules relabel_three relabelAt_def EntryField_def dashEntry_def sampleMap_def)

lemma sample_short:
  "relabel shortEntry (relabelings sampleEnv sampleCfg) (Suc 0) [''web'', a, b, c] =
     [''web'', ''GET'', ''200'', c]"
  by (simp add: sample_rules relabel_three relabelAt_def EntryField_def shortEntry_def sampleMap_def)

lemma sample_neg:
  "relabel negEntry (relabelings sampleEnv sampleCfg) (Suc 0) [''web'', a, b, c] =
     [''web'', ''GET'', ''200'', ''bob'']"
  by (simp add: sample_rules relabel_three relabelAt_def EntryField_def negEntry_def sampleMap_def)

lemma sample_accepts: "accepts sampleMetrics [a, b, c, d]"
  by (simp add: accepts_def sampleMetrics_def newMetrics_def NewCounterVec_def NewValueVec_def
      sample_labels)

lemma sample_floats:
  "EntryFloatField (ParseFloat sampleEnv) dashEntry ''body_bytes_sent'' = Inl (Error ''invalid syntax'')"
  "EntryFloatField (ParseFloat sampleEnv) dashEntry ''upstream_response_time'' =
     Inl (Error ''field does not exist: upstream_response_time'')"
  "EntryFloatField (ParseFloat sampleEnv) dashEntry ''request_time'' = Inr (1 / 8)"
  "EntryFloatField (ParseFloat sampleEnv) okEntry ''request_time'' = Inr (1 / 8)"
  "EntryFloatField (ParseFloat sampleEnv) negEntry ''body_bytes_sent'' = Inr (- 5)"
  "EntryFloatField (ParseFloat sampleEnv) negEntry ''upstream_response_time'' =
     Inl (Error ''field does not exist: upstream_response_time'')"
  "EntryFloatField (ParseFloat sampleEnv) negEntry ''request_time'' = Inr (1 / 8)"
  by (simp_all add: EntryFloatField_def EntryField_def sampleEnv_def sampleFloat_def dashEntry_def
      okEntry_def negEntry_def)

lemma sample_fieldValues:
  "fieldValues sampleEnv okEntry ''body_bytes_sent'' = [512]"
  "fieldValues sampleEnv okEntry ''upstream_response_time'' = []"
  "fieldValues sampleEnv okEntry ''request_time'' = [1 / 8]"
  "fieldValues sampleEnv dashEntry ''body_bytes_sent'' = []"
  "fieldValues sampleEnv dashEntry ''request_time'' = [1 / 8]"
  "fieldValues sampleEnv shortEntry ''body_bytes_sent'' = []"
  "fieldValues sampleEnv negEntry ''body_bytes_sent'' = [- 5]"
  by (simp_all add: fieldValues_def okEntry_def dashEntry_def shortEntry_def negEntry_def
      sampleEnv_def sampleFloat_def)

lemma sample_bytes:
  "bytesAccepted sampleEnv okEntry"
  "bytesAccepted sampleEnv dashEntry"
  "bytesAccepted sampleEnv shortEntry"
  "\<not> bytesAccepted sampleEnv negEntry"
  by (simp_all add: bytesAccepted_def sample_fieldValues) (simp_all add: sampleEnv_def)

lemma sample_line_ok:
  assumes "accepts (metrics st) (labelValues st)" and "labelValues st = [''web'', a, b, c]"
  shows "processLine sampleEnv sampleCfg okLine st =
     Inr \<lparr>labelValues = [''web'', ''GET'', ''200'', ''alice''],
          metrics = recorded sampleEnv okEntry [''web'', ''GET'', ''200'', ''alice''] (metrics st)\<rparr>"
  using processLine_ok [OF sampleParse_simps(1) assms(1) sample_bytes(1), of sampleCfg]
  by (simp add: assms(2) sample_off sample_ok)

lemma sample_line_dash:
  assumes "accepts (metrics st) (labelValues st)" and "labelValues st = [''web'', a, b, c]"
  shows "processLine sampleEnv sampleCfg dashLine st =
     Inr \<lparr>labelValues = [''web'', ''GET'', ''200'', c],
          metrics = recorded sampleEnv dashEntry [''web'', ''GET'', ''200'', c] (metrics st)\<rparr>"
  using processLine_ok [OF sampleParse_simps(2) assms(1) sample_bytes(2), of sampleCfg]
  by (simp add: assms(2) sample_off sample_dash)

lemma sample_line_short:
  assumes "accepts (metrics st) (labelValues st)" and "labelValues st = [''web'', a, b, c]"
  shows "processLine sampleEnv sampleCfg shortLine st =
     Inr \<lparr>labelValues = [''web'', ''GET'', ''200'', c],
          metrics = recorded sampleEnv shortEntry [''web'', ''GET'', ''200'', c] (metrics st)\<rparr>"
  using processLine_ok [OF sampleParse_simps(3) assms(1) sample_bytes(3), of sampleCfg]
  by (simp add: assms(2) sample_off sample_short)

lemma sample_run_ok:
  "processSourceFile sampleEnv sampleCfg [okLine] sampleMetrics = Inr afterOk"
  using processSourceFile_step [OF sample_start [of sampleMetrics], of okLine]
  by (simp add: sample_line_ok sample_accepts afterOk_def)

lemma afterOk_accepts: "accepts (metrics afterOk) [a, b, c, d]"
  by (simp add: afterOk_def sample_accepts)

lemma sample_run_ok_dash:
  "processSourceFile sampleEnv sampleCfg [okLine, dashLine] sampleMetrics = Inr afterOkDash"
  using processSourceFile_step [OF sample_run_ok, of dashLine]
    sample_line_dash [of afterOk "''GET''" "''200''" "''alice''"]
  by (simp add: afterOk_accepts afterOkDash_def) (simp add: afterOk_def)

lemma sample_run_ok_short:
  "processSourceFile sampleEnv sampleCfg [okLine, shortLine] sampleMetrics = Inr afterOkShort"
  using processSourceFile_step [OF sample_run_ok, of shortLine]
    sample_line_short [of afterOk "''GET''" "''200''" "''alice''"]
  by (simp add: afterOk_accepts afterOkShort_def) (simp add: afterOk_def)

lemma sample_zero:
  "series (countTotal sampleMetrics) lvs = 0"
  "series (bytesTotal sampleMetrics) lvs = []"
  "series (upstreamSeconds sampleMetrics) lvs = []"
  "series (responseSeconds sampleMetrics) lvs = []"
  "series (responseSecondsHist sampleMetrics) lvs = []"
  by (simp_all add: sampleMetrics_def newMetrics_def NewCounterVec_def NewValueVec_def)

lemma sample_ruleValues:
  "ruleValue (relabelings sampleEnv sampleCfg ! 2) okEntry = Some ''alice''"
  "ruleValue (relabelings sampleEnv sampleCfg ! 2) dashEntry = None"
  "ruleValue (relabelings sampleEnv sampleCfg ! 2) shortEntry = None"
  "ruleValue (relabelings sampleEnv sampleCfg ! 0) dashEntry = Some ''GET''"
  by (simp_all add: sample_rules ruleValue_def EntryField_def okEntry_def dashEntry_def
      shortEntry_def sampleMap_def)

lemma sample_history: "ruleHistory sampleEnv sampleCfg 2 [okLine] = [''alice'']"
  by (simp add: ruleHistory_def sampleParse_simps sample_ruleValues)

lemma sample_spec_dash:
  "specLabelVector sampleCfg (relabelings sampleEnv sampleCfg) dashEntry =
     [''web'', ''GET'', ''200'', []]"
  by (simp add: specLabelVector_def sample_rules ruleValue_def EntryField_def dashEntry_def
      sampleMap_def) (simp add: sampleCfg_def)

lemma override_rules:
  "relabelings sampleEnv overrideCfg =
     [\<lparr>TargetLabel = ''method'', SourceValue = ''request'', Map = Inr\<rparr>,
      \<lparr>TargetLabel = ''status'', SourceValue = ''status'', Map = Inr\<rparr>,
      \<lparr>TargetLabel = ''method'', SourceValue = ''remote_user'', Map = sampleMap\<rparr>]"
  by (simp add: relabelings_def sampleEnv_def sampleCfg_def overrideCfg_def)

lemma override_labels:
  "InitLabels sampleEnv overrideCfg = [''app'', ''method'', ''status'', ''method'']"
  by (simp add: labels_of_rules [OF sample_targets] override_rules)
     (simp add: overrideCfg_def sampleCfg_def)

lemma override_Init: "Init sampleEnv overrideCfg = Inl (Error ''duplicate label names'')"
  using Init_labels_repeated [OF sample_MustCompile, of overrideCfg]
  by (simp add: override_labels)


lemma sample_line_neg:
  "processLine sampleEnv sampleCfg negLine sampleStart =
     Inl (Error ''counter cannot decrease in value'')"
  using processLine_negative [OF sampleParse_simps(4) _ sample_bytes(4), of sampleStart sampleCfg]
  by (simp add: sampleStart_def sample_accepts)

lemma afterOk_count:
  "series (countTotal (metrics afterOk)) [''web'', ''GET'', ''200'', ''alice''] = 1"
  "series (countTotal (metrics afterOk)) [''web'', ''GET'', ''200'', []] = 0"
  by (simp_all add: afterOk_def countTotal_recorded sample_zero)

lemma afterOkDash_count:
  "series (countTotal (metrics afterOkDash)) [''web'', ''GET'', ''200'', ''alice''] = 2"
  "series (countTotal (metrics afterOkDash)) [''web'', ''GET'', ''200'', []] = 0"
  by (simp_all add: afterOkDash_def countTotal_recorded afterOk_count)

lemma afterOk_labels:
  "labelValues afterOk = [''web'', ''GET'', ''200'', ''alice'']"
  "labelValues afterOkDash = [''web'', ''GET'', ''200'', ''alice'']"
  "labelValues afterOkShort = [''web'', ''GET'', ''200'', ''alice'']"
  by (simp_all add: afterOk_def afterOkDash_def afterOkShort_def)

section \<open>The claims\<close>

subsection \<open>C1: a rule that produces nothing leaves its position as it was\<close>

text \<open>
  Claim C1 says that a position whose rule produces nothing for a line holds the empty
  default for that line, since every line starts from a reset buffer. The buffer is made
  once, before the loop over the lines (lines 244-248), and no line resets it. In the
  sample namespace the user rule writes \<^verbatim>\<open>alice\<close> for the first line. For a second
  line on which its \<^verbatim>\<open>Map\<close> fails, or from which its field is absent, the position
  still holds \<^verbatim>\<open>alice\<close>, and the request of the second line is counted on the
  series of the first.
\<close>

theorem stale_label_counterexample:
  "ParseString sampleEnv (Format sampleCfg) okLine = Inr okEntry \<and>
   ParseString sampleEnv (Format sampleCfg) dashLine = Inr dashEntry \<and>
   ParseString sampleEnv (Format sampleCfg) shortLine = Inr shortEntry \<and>
   SourceValue (relabelings sampleEnv sampleCfg ! 2) = ''remote_user'' \<and>
   shortEntry ''remote_user'' = None \<and>
   ruleValue (relabelings sampleEnv sampleCfg ! 2) okEntry = Some ''alice'' \<and>
   ruleValue (relabelings sampleEnv sampleCfg ! 2) dashEntry = None \<and>
   ruleValue (relabelings sampleEnv sampleCfg ! 2) shortEntry = None \<and>
   processSourceFile sampleEnv sampleCfg [okLine] sampleMetrics = Inr afterOk \<and>
   processSourceFile sampleEnv sampleCfg [okLine, dashLine] sampleMetrics = Inr afterOkDash \<and>
   processSourceFile sampleEnv sampleCfg [okLine, shortLine] sampleMetrics = Inr afterOkShort \<and>
   labelValues afterOk ! 3 = ''alice'' \<and>
   labelValues afterOkDash ! 3 = ''alice'' \<and>
   labelValues afterOkShort ! 3 = ''alice'' \<and>
   labelValues afterOkDash ! 3 \<noteq> [] \<and>
   labelValues afterOkShort ! 3 \<noteq> [] \<and>
   series (countTotal (metrics afterOkDash)) [''web'', ''GET'', ''200'', ''alice''] = 2"
  unfolding sample_ruleValues sample_run_ok sample_run_ok_dash sample_run_ok_short
    afterOkDash_count sampleParse_simps afterOk_labels
  by (simp add: sample_rules shortEntry_def)

text \<open>
  Claim C1, as the code has it: for a parsed line on which rule \<open>i\<close> produces nothing
  (its source field is absent or its \<^verbatim>\<open>Map\<close> fails), the position of the rule keeps
  what it held after the preceding lines of the loop, and that is the value the rule
  produced most recently on a parsed line of the loop, or the empty default when it
  has produced none so far.
\<close>

theorem unfired_rule_keeps_position:
  assumes "i < length (relabelings env nsCfg)"
      and "ParseString env (Format nsCfg) text = Inr entry"
      and "ruleValue (relabelings env nsCfg ! i) entry = None"
      and "processSourceFile env nsCfg lines m = Inr st"
      and "processSourceFile env nsCfg (lines @ [text]) m = Inr st'"
  shows "labelValues st' ! (length (OrderedLabelValues nsCfg) + i) =
           labelValues st ! (length (OrderedLabelValues nsCfg) + i) \<and>
         labelValues st ! (length (OrderedLabelValues nsCfg) + i) =
           (if ruleHistory env nsCfg i lines = [] then []
            else last (ruleHistory env nsCfg i lines))"
proof -
  let ?off = "length (OrderedLabelValues nsCfg)"
  let ?rs = "relabelings env nsCfg"
  have step: "processLine env nsCfg text st = Inr st'"
    using assms(4,5) by (simp add: processSourceFile_snoc)
  have lv: "labelValues st' = relabel entry ?rs ?off (labelValues st)"
    using assms(2) step by (rule processLine_Inr(1))
  have len: "length (labelValues st) = ?off + length ?rs"
    using assms(4) by (rule processSourceFile_length)
  have slot: "\<And>k lv. relabelAt entry ?rs ?off k lv =
      (case ruleValue (?rs ! k) entry of None \<Rightarrow> lv | Some v \<Rightarrow> lv[k + ?off := v])"
    by (simp add: relabelAt_def ruleValue_def split: sum.splits)
  have "relabel entry ?rs ?off (labelValues st) ! (?off + i) =
      (case ruleValue (?rs ! i) entry of None \<Rightarrow> labelValues st ! (?off + i) | Some v \<Rightarrow> v)"
    using fold_writes [OF slot, of "?off + i" "labelValues st" "length ?rs"] assms(1) len
    by (simp add: relabel_def)
  with lv assms(3) have "labelValues st' ! (?off + i) = labelValues st ! (?off + i)"
    by simp
  with position_history [OF assms(1,4)] show ?thesis by simp
qed

text \<open>
  In the sample namespace: the line of \<^verbatim>\<open>alice\<close>, then a line on which the user rule
  produces nothing.
\<close>

theorem unfired_rule_keeps_position_witness:
  "2 < length (relabelings sampleEnv sampleCfg) \<and>
   ParseString sampleEnv (Format sampleCfg) dashLine = Inr dashEntry \<and>
   ruleValue (relabelings sampleEnv sampleCfg ! 2) dashEntry = None \<and>
   processSourceFile sampleEnv sampleCfg [okLine] sampleMetrics = Inr afterOk \<and>
   processSourceFile sampleEnv sampleCfg ([okLine] @ [dashLine]) sampleMetrics = Inr afterOkDash \<and>
   labelValues afterOkDash ! (length (OrderedLabelValues sampleCfg) + 2) =
     labelValues afterOk ! (length (OrderedLabelValues sampleCfg) + 2) \<and>
   ruleHistory sampleEnv sampleCfg 2 [okLine] = [''alice''] \<and>
   labelValues afterOk ! (length (OrderedLabelValues sampleCfg) + 2) = ''alice''"
proof -
  have h1: "2 < length (relabelings sampleEnv sampleCfg)"
    by (simp add: sample_rules)
  have h2: "ParseString sampleEnv (Format sampleCfg) dashLine = Inr dashEntry"
    by (rule sampleParse_simps)
  have h3: "ruleValue (relabelings sampleEnv sampleCfg ! 2) dashEntry = None"
    by (rule sample_ruleValues)
  note h4 = sample_run_ok
  have h5: "processSourceFile sampleEnv sampleCfg ([okLine] @ [dashLine]) sampleMetrics =
      Inr afterOkDash"
    using sample_run_ok_dash by simp
  from unfired_rule_keeps_position [OF h1 h2 h3 h4 h5] h1 h2 h3 h4 h5 sample_history
  show ?thesis by simp
qed

subsection \<open>C2: the label names and the label values line up\<close>

text \<open>
  Claim C2. For a namespace that \<^verbatim>\<open>Init\<close> has compiled and registered, every metric
  vector is created with the static label names, then the target labels of the built-in
  rules, then those of the user rules. The buffer of a loop has as many values as there
  are label names, before and after every line. After a parsed line its first positions
  hold the static values, and the position after them that carries the name of rule
  \<open>i\<close> holds what rule \<open>i\<close> produced for the line (when it produced nothing, what the
  position held before the line); the first of the rules are the built-in ones, the
  others have the target labels of the user's rules, in their order. The two facts
  about the packages \<^verbatim>\<open>config\<close> and \<^verbatim>\<open>relabeling\<close> that this needs are hypotheses:
  there are as many static names as static values, and \<^verbatim>\<open>NewRelabelings\<close> keeps the
  target labels of the configured rules, in their order.
\<close>

theorem label_schema_alignment:
  assumes "Init env cfg0 = Inr (nsCfg, M)"
      and "length (OrderedLabelNames nsCfg) = length (OrderedLabelValues nsCfg)"
      and "map TargetLabel (NewRelabelings env (RelabelConfigs nsCfg)) =
           map TargetLabel (RelabelConfigs nsCfg)"
      and "processSourceFile env nsCfg lines m = Inr st"
      and "ParseString env (Format nsCfg) text = Inr entry"
      and "processSourceFile env nsCfg (lines @ [text]) m = Inr st'"
  shows "variableLabels (countTotal M) =
           OrderedLabelNames nsCfg @ map TargetLabel (DefaultRelabelings env)
             @ map TargetLabel (RelabelConfigs nsCfg) \<and>
         variableLabels (bytesTotal M) = variableLabels (countTotal M) \<and>
         variableLabels (upstreamSeconds M) = variableLabels (countTotal M) \<and>
         variableLabels (upstreamSecondsHist M) = variableLabels (countTotal M) \<and>
         variableLabels (responseSeconds M) = variableLabels (countTotal M) \<and>
         variableLabels (responseSecondsHist M) = variableLabels (countTotal M) \<and>
         length (labelValues st) = length (variableLabels (countTotal M)) \<and>
         length (labelValues st') = length (variableLabels (countTotal M)) \<and>
         (\<forall>j < length (OrderedLabelValues nsCfg).
            variableLabels (countTotal M) ! j = OrderedLabelNames nsCfg ! j \<and>
            labelValues st' ! j = OrderedLabelValues nsCfg ! j) \<and>
         (\<forall>i < length (relabelings env nsCfg).
            variableLabels (countTotal M) ! (length (OrderedLabelValues nsCfg) + i) =
              TargetLabel (relabelings env nsCfg ! i) \<and>
            labelValues st' ! (length (OrderedLabelValues nsCfg) + i) =
              (case ruleValue (relabelings env nsCfg ! i) entry of
                 None \<Rightarrow> labelValues st ! (length (OrderedLabelValues nsCfg) + i)
               | Some v \<Rightarrow> v)) \<and>
         (\<forall>i < length (DefaultRelabelings env).
            relabelings env nsCfg ! i = DefaultRelabelings env ! i) \<and>
         (\<forall>i < length (RelabelConfigs nsCfg).
            TargetLabel (relabelings env nsCfg ! (length (DefaultRelabelings env) + i)) =
              TargetLabel (RelabelConfigs nsCfg ! i))"
proof -
  let ?names = "OrderedLabelNames nsCfg"
  let ?off = "length (OrderedLabelValues nsCfg)"
  let ?rs = "relabelings env nsCfg"
  let ?vl = "variableLabels (countTotal M)"
  have labels: "?vl = InitLabels env nsCfg"
    using assms(1) by (rule Init_Inr(3))
  have schema: "?vl =
      ?names @ map TargetLabel (DefaultRelabelings env) @ map TargetLabel (RelabelConfigs nsCfg)"
    unfolding labels by (simp add: InitLabels_def Let_def fold_snoc_map map_nth_upt)
  have schema': "?vl = ?names @ map TargetLabel ?rs"
    unfolding schema by (simp add: relabelings_def assms(3))
  have step: "processLine env nsCfg text st = Inr st'"
    using assms(4,6) by (simp add: processSourceFile_snoc)
  have lv: "labelValues st' = relabel entry ?rs ?off (labelValues st)"
    using assms(5) step by (rule processLine_Inr(1))
  have blen: "length (labelValues st) = ?off + length ?rs"
    using assms(4) by (rule processSourceFile_length)
  have slot: "\<And>k lv. relabelAt entry ?rs ?off k lv =
      (case ruleValue (?rs ! k) entry of None \<Rightarrow> lv | Some v \<Rightarrow> lv[k + ?off := v])"
    by (simp add: relabelAt_def ruleValue_def split: sum.splits)
  have nlen: "length (NewRelabelings env (RelabelConfigs nsCfg)) = length (RelabelConfigs nsCfg)"
    using arg_cong [OF assms(3), of length] by simp
  have others: "variableLabels (bytesTotal M) = ?vl"
    "variableLabels (upstreamSeconds M) = ?vl"
    "variableLabels (upstreamSecondsHist M) = ?vl"
    "variableLabels (responseSeconds M) = ?vl"
    "variableLabels (responseSecondsHist M) = ?vl"
    using Init_Inr [OF assms(1)] by simp_all
  have len: "length (labelValues st) = length ?vl"
    unfolding schema' using processSourceFile_length [OF assms(4)] assms(2) by simp
  have len': "length (labelValues st') = length ?vl"
    unfolding schema' using processSourceFile_length [OF assms(6)] assms(2) by simp
  have static: "\<forall>j < ?off. ?vl ! j = ?names ! j \<and> labelValues st' ! j = OrderedLabelValues nsCfg ! j"
  proof (intro allI impI)
    fix j
    assume j: "j < ?off"
    have "take ?off (labelValues st') ! j = labelValues st' ! j"
      using j by simp
    then have "labelValues st' ! j = OrderedLabelValues nsCfg ! j"
      by (simp only: processSourceFile_take [OF assms(6)])
    moreover have "?vl ! j = ?names ! j"
      unfolding schema using j assms(2) by (simp add: nth_append)
    ultimately show "?vl ! j = ?names ! j \<and> labelValues st' ! j = OrderedLabelValues nsCfg ! j"
      by simp
  qed
  have rules: "\<forall>i < length ?rs.
            ?vl ! (?off + i) = TargetLabel (?rs ! i) \<and>
            labelValues st' ! (?off + i) =
              (case ruleValue (?rs ! i) entry of
                 None \<Rightarrow> labelValues st ! (?off + i) | Some v \<Rightarrow> v)"
  proof (intro allI impI)
    fix i
    assume i: "i < length ?rs"
    have "?vl ! (?off + i) = TargetLabel (?rs ! i)"
      unfolding schema' using assms(2) i by (simp add: nth_append)
    moreover have "relabel entry ?rs ?off (labelValues st) ! (?off + i) =
        (case ruleValue (?rs ! i) entry of None \<Rightarrow> labelValues st ! (?off + i) | Some v \<Rightarrow> v)"
      using fold_writes [OF slot, of "?off + i" "labelValues st" "length ?rs"] i blen
      by (simp add: relabel_def)
    ultimately show "?vl ! (?off + i) = TargetLabel (?rs ! i) \<and>
            labelValues st' ! (?off + i) =
              (case ruleValue (?rs ! i) entry of
                 None \<Rightarrow> labelValues st ! (?off + i) | Some v \<Rightarrow> v)"
      by (simp add: lv)
  qed
  have builtin: "\<forall>i < length (DefaultRelabelings env). ?rs ! i = DefaultRelabelings env ! i"
    by (simp add: relabelings_def nth_append)
  have user: "\<forall>i < length (RelabelConfigs nsCfg).
            TargetLabel (?rs ! (length (DefaultRelabelings env) + i)) =
              TargetLabel (RelabelConfigs nsCfg ! i)"
  proof (intro allI impI)
    fix i
    assume i: "i < length (RelabelConfigs nsCfg)"
    then have "map TargetLabel (NewRelabelings env (RelabelConfigs nsCfg)) ! i =
               TargetLabel (NewRelabelings env (RelabelConfigs nsCfg) ! i)"
      using nlen by simp
    moreover have "map TargetLabel (RelabelConfigs nsCfg) ! i = TargetLabel (RelabelConfigs nsCfg ! i)"
      using i by simp
    ultimately show "TargetLabel (?rs ! (length (DefaultRelabelings env) + i)) =
              TargetLabel (RelabelConfigs nsCfg ! i)"
      using assms(3) by (simp add: relabelings_def)
  qed
  from schema others len len' static rules builtin user show ?thesis
    by blast
qed

text \<open>
  In the sample namespace, for the second of two lines.
\<close>

theorem label_schema_alignment_witness:
  "Init sampleEnv sampleCfg = Inr (sampleCfg, sampleMetrics) \<and>
   length (OrderedLabelNames sampleCfg) = length (OrderedLabelValues sampleCfg) \<and>
   map TargetLabel (NewRelabelings sampleEnv (RelabelConfigs sampleCfg)) =
     map TargetLabel (RelabelConfigs sampleCfg) \<and>
   processSourceFile sampleEnv sampleCfg [okLine] sampleMetrics = Inr afterOk \<and>
   ParseString sampleEnv (Format sampleCfg) dashLine = Inr dashEntry \<and>
   processSourceFile sampleEnv sampleCfg ([okLine] @ [dashLine]) sampleMetrics = Inr afterOkDash \<and>
   variableLabels (countTotal sampleMetrics) = [''app'', ''method'', ''status'', ''user''] \<and>
   length (labelValues afterOkDash) = length (variableLabels (countTotal sampleMetrics)) \<and>
   variableLabels (countTotal sampleMetrics) ! 0 = OrderedLabelNames sampleCfg ! 0 \<and>
   labelValues afterOkDash ! 0 = OrderedLabelValues sampleCfg ! 0 \<and>
   variableLabels (countTotal sampleMetrics) ! (length (OrderedLabelValues sampleCfg) + 0) =
     TargetLabel (relabelings sampleEnv sampleCfg ! 0) \<and>
   ruleValue (relabelings sampleEnv sampleCfg ! 0) dashEntry = Some ''GET'' \<and>
   labelValues afterOkDash ! (length (OrderedLabelValues sampleCfg) + 0) = ''GET'' \<and>
   relabelings sampleEnv sampleCfg ! 1 = DefaultRelabelings sampleEnv ! 1 \<and>
   TargetLabel (relabelings sampleEnv sampleCfg ! (length (DefaultRelabelings sampleEnv) + 0)) =
     TargetLabel (RelabelConfigs sampleCfg ! 0)"
proof -
  note h1 = sample_Init
  have h2: "length (OrderedLabelNames sampleCfg) = length (OrderedLabelValues sampleCfg)"
    by (simp add: sampleCfg_def)
  note h3 = sample_targets [of "RelabelConfigs sampleCfg"]
  note h4 = sample_run_ok
  have h5: "ParseString sampleEnv (Format sampleCfg) dashLine = Inr dashEntry"
    by (rule sampleParse_simps)
  have h6: "processSourceFile sampleEnv sampleCfg ([okLine] @ [dashLine]) sampleMetrics =
      Inr afterOkDash"
    using sample_run_ok_dash by simp
  have i0: "0 < length (OrderedLabelValues sampleCfg)"
    and i2: "0 < length (relabelings sampleEnv sampleCfg)"
    and i1: "1 < length (DefaultRelabelings sampleEnv)"
    and i3: "0 < length (RelabelConfigs sampleCfg)"
    by (simp_all add: sample_rules) (simp_all add: sampleCfg_def sampleEnv_def)
  have names: "OrderedLabelNames sampleCfg @ map TargetLabel (DefaultRelabelings sampleEnv)
             @ map TargetLabel (RelabelConfigs sampleCfg) = [''app'', ''method'', ''status'', ''user'']"
    by (simp add: sampleCfg_def sampleEnv_def)
  note T = label_schema_alignment [OF h1 h2 h3 h4 h5 h6, unfolded names]
  from T have a: "variableLabels (countTotal sampleMetrics) = [''app'', ''method'', ''status'', ''user'']"
    by blast
  from T have b: "length (labelValues afterOkDash) = length (variableLabels (countTotal sampleMetrics))"
    by blast
  from T i0 have c: "variableLabels (countTotal sampleMetrics) ! 0 = OrderedLabelNames sampleCfg ! 0 \<and>
     labelValues afterOkDash ! 0 = OrderedLabelValues sampleCfg ! 0"
    by blast
  from T i2 have d: "variableLabels (countTotal sampleMetrics) ! (length (OrderedLabelValues sampleCfg) + 0) =
     TargetLabel (relabelings sampleEnv sampleCfg ! 0) \<and>
     labelValues afterOkDash ! (length (OrderedLabelValues sampleCfg) + 0) =
       (case ruleValue (relabelings sampleEnv sampleCfg ! 0) dashEntry of
          None \<Rightarrow> labelValues afterOk ! (length (OrderedLabelValues sampleCfg) + 0)
        | Some v \<Rightarrow> v)"
    by blast
  note rv = sample_ruleValues(4)
  from d have d': "labelValues afterOkDash ! (length (OrderedLabelValues sampleCfg) + 0) = ''GET''"
    unfolding rv by simp
  from T i1 have e: "relabelings sampleEnv sampleCfg ! 1 = DefaultRelabelings sampleEnv ! 1"
    by blast
  from T i3 have f: "TargetLabel (relabelings sampleEnv sampleCfg ! (length (DefaultRelabelings sampleEnv) + 0)) =
     TargetLabel (RelabelConfigs sampleCfg ! 0)"
    by blast
  from h1 h2 h3 h4 h5 h6 a b c d d' rv e f show ?thesis by blast
qed

subsection \<open>C3: a line that does not parse\<close>

text \<open>
  Claim C3. A line that does not parse adds exactly one to the counter of parse errors
  and raises no panic; the six labelled vectors and the buffer are as before, and the
  loop goes on: the lines after it are handled from the state that this line leaves.
\<close>

theorem parse_error_counted_once:
  assumes "ParseString env (Format nsCfg) text = Inl err"
  shows "\<exists>st'. processLine env nsCfg text st = Inr st' \<and>
           parseErrorsTotal (metrics st') = parseErrorsTotal (metrics st) + 1 \<and>
           countTotal (metrics st') = countTotal (metrics st) \<and>
           bytesTotal (metrics st') = bytesTotal (metrics st) \<and>
           upstreamSeconds (metrics st') = upstreamSeconds (metrics st) \<and>
           upstreamSecondsHist (metrics st') = upstreamSecondsHist (metrics st) \<and>
           responseSeconds (metrics st') = responseSeconds (metrics st) \<and>
           responseSecondsHist (metrics st') = responseSecondsHist (metrics st) \<and>
           labelValues st' = labelValues st \<and>
           (processSourceFile env nsCfg lines m = Inr st \<longrightarrow>
              processSourceFile env nsCfg (lines @ [text]) m = Inr st' \<and>
              processSourceFile env nsCfg (lines @ text # rest) m =
                processLines env nsCfg rest st')"
proof -
  let ?st' = "st\<lparr>metrics := (metrics st)\<lparr>parseErrorsTotal := parseErrorsTotal (metrics st) + 1\<rparr>\<rparr>"
  have step: "processLine env nsCfg text st = Inr ?st'"
    using assms by (simp add: processLine_def)
  have "processSourceFile env nsCfg lines m = Inr st \<longrightarrow>
          processSourceFile env nsCfg (lines @ [text]) m = Inr ?st' \<and>
          processSourceFile env nsCfg (lines @ text # rest) m = processLines env nsCfg rest ?st'"
    using step by (simp add: processSourceFile_append)
  with step show ?thesis by (intro exI [of _ ?st']) simp
qed

text \<open>
  In the sample namespace: a line that does not parse, between two that do.
\<close>

theorem parse_error_counted_once_witness:
  "ParseString sampleEnv (Format sampleCfg) ''garbage'' =
     Inl (Error ''access log line does not match given format'') \<and>
   processSourceFile sampleEnv sampleCfg [okLine] sampleMetrics = Inr afterOk \<and>
   (\<exists>st'. processLine sampleEnv sampleCfg ''garbage'' afterOk = Inr st' \<and>
      parseErrorsTotal (metrics st') = parseErrorsTotal (metrics afterOk) + 1 \<and>
      countTotal (metrics st') = countTotal (metrics afterOk) \<and>
      bytesTotal (metrics st') = bytesTotal (metrics afterOk) \<and>
      labelValues st' = labelValues afterOk \<and>
      processSourceFile sampleEnv sampleCfg ([okLine] @ [''garbage'']) sampleMetrics = Inr st' \<and>
      processSourceFile sampleEnv sampleCfg ([okLine] @ ''garbage'' # [dashLine]) sampleMetrics =
        processLines sampleEnv sampleCfg [dashLine] st')"
proof -
  have h: "ParseString sampleEnv (Format sampleCfg) ''garbage'' =
     Inl (Error ''access log line does not match given format'')"
    by (rule sampleParse_simps)
  from parse_error_counted_once [OF h, of afterOk "[okLine]" sampleMetrics "[dashLine]"]
    h sample_run_ok
  show ?thesis by blast
qed

subsection \<open>C4: optional numeric fields\<close>

text \<open>
  Claim C4 says that, when an optional numeric field is absent, only its own
  observations are skipped, and every other observation whose field is present still
  occurs. Line 270 hands the byte count to \<^verbatim>\<open>Add\<close> of a counter without looking at its
  sign, and that call panics for a value below zero. The fourth sample line has no
  upstream time, a byte count of \<^verbatim>\<open>-5\<close> and a request time of \<^verbatim>\<open>0.125\<close>: the
  panic ends the loop and the process, and the request time is never observed.
\<close>

theorem negative_bytes_counterexample:
  "ParseString sampleEnv (Format sampleCfg) negLine = Inr negEntry \<and>
   EntryFloatField (ParseFloat sampleEnv) negEntry ''upstream_response_time'' =
     Inl (Error ''field does not exist: upstream_response_time'') \<and>
   EntryFloatField (ParseFloat sampleEnv) negEntry ''body_bytes_sent'' = Inr (- 5) \<and>
   EntryFloatField (ParseFloat sampleEnv) negEntry ''request_time'' = Inr (1 / 8) \<and>
   accepts (metrics sampleStart) (labelValues sampleStart) \<and>
   processLine sampleEnv sampleCfg negLine sampleStart =
     Inl (Error ''counter cannot decrease in value'') \<and>
   run sampleEnv (Running [sampleState]) [Line 0 0 negLine] =
     Panicked (Error ''counter cannot decrease in value'')"
proof -
  have neg: "Negative sampleEnv (- 5)"
    by (simp add: sampleEnv_def)
  have "updateMetrics sampleEnv negEntry [''web'', ''GET'', ''200'', ''bob''] sampleMetrics =
      Inl (Error ''counter cannot decrease in value'')"
    by (simp add: updateMetrics_def CounterInc_def CounterAdd_def WithLabelValues_def
        sample_floats neg sampleMetrics_def newMetrics_def NewCounterVec_def NewValueVec_def
        sample_labels)
  then have line: "processLine sampleEnv sampleCfg negLine sampleStart =
      Inl (Error ''counter cannot decrease in value'')"
    by (simp add: processLine_def sampleParse_simps Let_def sample_off sampleStart_def sample_neg)
  then have "run sampleEnv (Running [sampleState]) [Line 0 0 negLine] =
     Panicked (Error ''counter cannot decrease in value'')"
    by (simp add: run_def sampleState_def sampleStart_def)
  with line show ?thesis
    by (simp add: sampleParse_simps sample_floats)
       (simp add: sampleStart_def sample_accepts)
qed

text \<open>
  Claim C4, for a parsed line whose byte count, if it has one, is not below zero, in a
  loop whose vectors take label tuples of the length of its buffer. The line raises no
  panic; the series of requests under the label values of the line grows by one; and
  each of the three fields decides on its own vectors alone: when the field is absent or
  not a number its vectors are as before, and otherwise the series under the label
  values of the line is given the number of the field. The counter of parse errors is
  as before.
\<close>

theorem optional_fields_skipped_alone:
  assumes "ParseString env (Format nsCfg) text = Inr entry"
      and "accepts (metrics st) (labelValues st)"
      and "bytesAccepted env entry"
  shows "\<exists>st'. processLine env nsCfg text st = Inr st' \<and>
           series (countTotal (metrics st')) =
             (series (countTotal (metrics st)))
               (labelValues st' := series (countTotal (metrics st)) (labelValues st') + 1) \<and>
           (\<forall>e. EntryFloatField (ParseFloat env) entry ''body_bytes_sent'' = Inl e \<longrightarrow>
              series (bytesTotal (metrics st')) = series (bytesTotal (metrics st))) \<and>
           (\<forall>v. EntryFloatField (ParseFloat env) entry ''body_bytes_sent'' = Inr v \<longrightarrow>
              series (bytesTotal (metrics st')) =
                (series (bytesTotal (metrics st)))
                  (labelValues st' := series (bytesTotal (metrics st)) (labelValues st') @ [v])) \<and>
           (\<forall>e. EntryFloatField (ParseFloat env) entry ''upstream_response_time'' = Inl e \<longrightarrow>
              series (upstreamSeconds (metrics st')) = series (upstreamSeconds (metrics st)) \<and>
              series (upstreamSecondsHist (metrics st')) =
                series (upstreamSecondsHist (metrics st))) \<and>
           (\<forall>v. EntryFloatField (ParseFloat env) entry ''upstream_response_time'' = Inr v \<longrightarrow>
              series (upstreamSeconds (metrics st')) =
                (series (upstreamSeconds (metrics st)))
                  (labelValues st' :=
                     series (upstreamSeconds (metrics st)) (labelValues st') @ [v]) \<and>
              series (upstreamSecondsHist (metrics st')) =
                (series (upstreamSecondsHist (metrics st)))
                  (labelValues st' :=
                     series (upstreamSecondsHist (metrics st)) (labelValues st') @ [v])) \<and>
           (\<forall>e. EntryFloatField (ParseFloat env) entry ''request_time'' = Inl e \<longrightarrow>
              series (responseSeconds (metrics st')) = series (responseSeconds (metrics st)) \<and>
              series (responseSecondsHist (metrics st')) =
                series (responseSecondsHist (metrics st))) \<and>
           (\<forall>v. EntryFloatField (ParseFloat env) entry ''request_time'' = Inr v \<longrightarrow>
              series (responseSeconds (metrics st')) =
                (series (responseSeconds (metrics st)))
                  (labelValues st' :=
                     series (responseSeconds (metrics st)) (labelValues st') @ [v]) \<and>
              series (responseSecondsHist (metrics st')) =
                (series (responseSecondsHist (metrics st)))
                  (labelValues st' :=
                     series (responseSecondsHist (metrics st)) (labelValues st') @ [v])) \<and>
           parseErrorsTotal (metrics st') = parseErrorsTotal (metrics st)"
proof -
  let ?lvs = "relabel entry (relabelings env nsCfg) (length (OrderedLabelValues nsCfg))
                (labelValues st)"
  let ?st' = "\<lparr>labelValues = ?lvs, metrics = recorded env entry ?lvs (metrics st)\<rparr>"
  have fit: "accepts (metrics st) ?lvs"
    using assms(2) by (simp add: accepts_def relabel_length)
  have inc: "CounterInc (countTotal (metrics st)) ?lvs =
      Inr ((countTotal (metrics st))\<lparr>series := (series (countTotal (metrics st)))
             (?lvs := series (countTotal (metrics st)) ?lvs + 1)\<rparr>)"
    using fit by (simp add: accepts_def CounterInc_def WithLabelValues_def)
  have add: "\<And>v. \<not> Negative env v \<Longrightarrow>
      CounterAdd (Negative env) (bytesTotal (metrics st)) ?lvs v =
        Inr (grow (bytesTotal (metrics st)) ?lvs [v])"
    using fit by (simp add: accepts_def CounterAdd_def WithLabelValues_def grow_def)
  have obs: "\<And>v. Observe (upstreamSeconds (metrics st)) ?lvs v =
        Inr (grow (upstreamSeconds (metrics st)) ?lvs [v])"
    "\<And>v. Observe (upstreamSecondsHist (metrics st)) ?lvs v =
        Inr (grow (upstreamSecondsHist (metrics st)) ?lvs [v])"
    "\<And>v. Observe (responseSeconds (metrics st)) ?lvs v =
        Inr (grow (responseSeconds (metrics st)) ?lvs [v])"
    "\<And>v. Observe (responseSecondsHist (metrics st)) ?lvs v =
        Inr (grow (responseSecondsHist (metrics st)) ?lvs [v])"
    using fit by (simp_all add: accepts_def Observe_def WithLabelValues_def grow_def)
  have "updateMetrics env entry ?lvs (metrics st) = Inr (recorded env entry ?lvs (metrics st))"
    using inc add obs assms(3) by (rule updateMetrics_accepted)
  then have step: "processLine env nsCfg text st = Inr ?st'"
    by (simp add: processLine_def Let_def assms(1))
  show ?thesis
    by (intro exI [of _ ?st'])
       (simp add: step countTotal_recorded bytesTotal_recorded upstreamSeconds_recorded
          upstreamSecondsHist_recorded responseSeconds_recorded responseSecondsHist_recorded
          parseErrorsTotal_recorded fieldValues_Inl fieldValues_Inr)
qed

text \<open>
  In the sample namespace: a line whose byte count is not a number and which has no
  upstream time; its request is counted and its request time observed.
\<close>

theorem optional_fields_skipped_alone_witness:
  "ParseString sampleEnv (Format sampleCfg) dashLine = Inr dashEntry \<and>
   accepts (metrics sampleStart) (labelValues sampleStart) \<and>
   bytesAccepted sampleEnv dashEntry \<and>
   EntryFloatField (ParseFloat sampleEnv) dashEntry ''body_bytes_sent'' =
     Inl (Error ''invalid syntax'') \<and>
   EntryFloatField (ParseFloat sampleEnv) dashEntry ''upstream_response_time'' =
     Inl (Error ''field does not exist: upstream_response_time'') \<and>
   EntryFloatField (ParseFloat sampleEnv) dashEntry ''request_time'' = Inr (1 / 8) \<and>
   (\<exists>st'. processLine sampleEnv sampleCfg dashLine sampleStart = Inr st' \<and>
      series (countTotal (metrics st')) =
        (series (countTotal (metrics sampleStart)))
          (labelValues st' := series (countTotal (metrics sampleStart)) (labelValues st') + 1) \<and>
      series (bytesTotal (metrics st')) = series (bytesTotal (metrics sampleStart)) \<and>
      series (upstreamSeconds (metrics st')) = series (upstreamSeconds (metrics sampleStart)) \<and>
      series (upstreamSecondsHist (metrics st')) =
        series (upstreamSecondsHist (metrics sampleStart)) \<and>
      series (responseSeconds (metrics st')) =
        (series (responseSeconds (metrics sampleStart)))
          (labelValues st' :=
             series (responseSeconds (metrics sampleStart)) (labelValues st') @ [1 / 8]) \<and>
      series (responseSecondsHist (metrics st')) =
        (series (responseSecondsHist (metrics sampleStart)))
          (labelValues st' :=
             series (responseSecondsHist (metrics sampleStart)) (labelValues st') @ [1 / 8]))"
proof -
  have h1: "ParseString sampleEnv (Format sampleCfg) dashLine = Inr dashEntry"
    by (rule sampleParse_simps)
  have h2: "accepts (metrics sampleStart) (labelValues sampleStart)"
    by (simp add: sampleStart_def sample_accepts)
  note h3 = sample_bytes(2)
  from optional_fields_skipped_alone [OF h1 h2 h3] h1 h2 h3 sample_floats(1-3)
  show ?thesis by blast
qed

subsection \<open>C5: rules with the same target label\<close>




subsection \<open>C6: one request, one increment\<close>

text \<open>
  Claim C6 says that the request of a parsed line is counted under the static values
  followed by what the rules produce for the fields of that line. After the line of
  \<^verbatim>\<open>alice\<close>, a line on which the user rule produces nothing is counted under the
  label values of the first line: the last value is \<^verbatim>\<open>alice\<close>, not the empty default,
  the series of \<^verbatim>\<open>alice\<close> stands at two and the series with the empty user at zero.
\<close>

theorem stale_vector_counterexample:
  "ParseString sampleEnv (Format sampleCfg) dashLine = Inr dashEntry \<and>
   processSourceFile sampleEnv sampleCfg [okLine] sampleMetrics = Inr afterOk \<and>
   processSourceFile sampleEnv sampleCfg [okLine, dashLine] sampleMetrics = Inr afterOkDash \<and>
   labelValues afterOkDash = [''web'', ''GET'', ''200'', ''alice''] \<and>
   specLabelVector sampleCfg (relabelings sampleEnv sampleCfg) dashEntry =
     [''web'', ''GET'', ''200'', []] \<and>
   series (countTotal (metrics afterOk)) [''web'', ''GET'', ''200'', ''alice''] = 1 \<and>
   series (countTotal (metrics afterOkDash)) [''web'', ''GET'', ''200'', ''alice''] = 2 \<and>
   series (countTotal (metrics afterOk)) [''web'', ''GET'', ''200'', []] = 0 \<and>
   series (countTotal (metrics afterOkDash)) [''web'', ''GET'', ''200'', []] = 0"
  unfolding sampleParse_simps sample_run_ok sample_run_ok_dash afterOk_labels sample_spec_dash
    afterOk_count afterOkDash_count
  by simp

text \<open>
  Claim C6, as the code has it, for a parsed line whose byte count, if it has one, is
  not below zero, in a loop whose vectors take label tuples of the length of its buffer.
  The loop handles the line without a panic, and the series of requests under the label
  values of the line grows by one. These label values are the static values followed,
  for every rule, by the value the rule produces for the line, or by what its position
  held before the line when it produces none; they are the vector of the specification
  when those positions were empty. When the request time of the line is a number, both
  response-time vectors are given it under the same label values.
\<close>

theorem request_counted_once:
  assumes "ParseString env (Format nsCfg) text = Inr entry"
      and "processSourceFile env nsCfg lines m = Inr st"
      and "accepts (metrics st) (labelValues st)"
      and "bytesAccepted env entry"
  shows "\<exists>st'. processSourceFile env nsCfg (lines @ [text]) m = Inr st' \<and>
           series (countTotal (metrics st')) =
             (series (countTotal (metrics st)))
               (labelValues st' := series (countTotal (metrics st)) (labelValues st') + 1) \<and>
           labelValues st' =
             OrderedLabelValues nsCfg
               @ map (\<lambda>i. case ruleValue (relabelings env nsCfg ! i) entry of
                             None \<Rightarrow> labelValues st ! (length (OrderedLabelValues nsCfg) + i)
                           | Some v \<Rightarrow> v)
                   [0..<length (relabelings env nsCfg)] \<and>
           ((\<forall>i < length (relabelings env nsCfg).
               ruleValue (relabelings env nsCfg ! i) entry = None \<longrightarrow>
               labelValues st ! (length (OrderedLabelValues nsCfg) + i) = []) \<longrightarrow>
            labelValues st' = specLabelVector nsCfg (relabelings env nsCfg) entry) \<and>
           (\<forall>v. EntryFloatField (ParseFloat env) entry ''request_time'' = Inr v \<longrightarrow>
              series (responseSeconds (metrics st')) =
                (series (responseSeconds (metrics st)))
                  (labelValues st' :=
                     series (responseSeconds (metrics st)) (labelValues st') @ [v]) \<and>
              series (responseSecondsHist (metrics st')) =
                (series (responseSecondsHist (metrics st)))
                  (labelValues st' :=
                     series (responseSecondsHist (metrics st)) (labelValues st') @ [v]))"
proof -
  let ?off = "length (OrderedLabelValues nsCfg)"
  let ?rs = "relabelings env nsCfg"
  let ?lvs = "relabel entry ?rs ?off (labelValues st)"
  let ?st' = "\<lparr>labelValues = ?lvs, metrics = recorded env entry ?lvs (metrics st)\<rparr>"
  have fit: "accepts (metrics st) ?lvs"
    using assms(3) by (simp add: accepts_def relabel_length)
  have inc: "CounterInc (countTotal (metrics st)) ?lvs =
      Inr ((countTotal (metrics st))\<lparr>series := (series (countTotal (metrics st)))
             (?lvs := series (countTotal (metrics st)) ?lvs + 1)\<rparr>)"
    using fit by (simp add: accepts_def CounterInc_def WithLabelValues_def)
  have add: "\<And>v. \<not> Negative env v \<Longrightarrow>
      CounterAdd (Negative env) (bytesTotal (metrics st)) ?lvs v =
        Inr (grow (bytesTotal (metrics st)) ?lvs [v])"
    using fit by (simp add: accepts_def CounterAdd_def WithLabelValues_def grow_def)
  have obs: "\<And>v. Observe (upstreamSeconds (metrics st)) ?lvs v =
        Inr (grow (upstreamSeconds (metrics st)) ?lvs [v])"
    "\<And>v. Observe (upstreamSecondsHist (metrics st)) ?lvs v =
        Inr (grow (upstreamSecondsHist (metrics st)) ?lvs [v])"
    "\<And>v. Observe (responseSeconds (metrics st)) ?lvs v =
        Inr (grow (responseSeconds (metrics st)) ?lvs [v])"
    "\<And>v. Observe (responseSecondsHist (metrics st)) ?lvs v =
        Inr (grow (responseSecondsHist (metrics st)) ?lvs [v])"
    using fit by (simp_all add: accepts_def Observe_def WithLabelValues_def grow_def)
  have "updateMetrics env entry ?lvs (metrics st) = Inr (recorded env entry ?lvs (metrics st))"
    using inc add obs assms(4) by (rule updateMetrics_accepted)
  then have step: "processLine env nsCfg text st = Inr ?st'"
    by (simp add: processLine_def Let_def assms(1))
  then have run: "processSourceFile env nsCfg (lines @ [text]) m = Inr ?st'"
    using assms(2) by (simp add: processSourceFile_snoc)
  have pos: "labelValues ?st' ! (?off + i) =
           (case ruleValue (?rs ! i) entry of
              None \<Rightarrow> labelValues st ! (?off + i) | Some v \<Rightarrow> v)"
    if "i < length ?rs" for i
  proof -
    have len: "length (labelValues st) = ?off + length ?rs"
      using assms(2) by (rule processSourceFile_length)
    have slot: "\<And>k lv. relabelAt entry ?rs ?off k lv =
        (case ruleValue (?rs ! k) entry of None \<Rightarrow> lv | Some v \<Rightarrow> lv[k + ?off := v])"
      by (simp add: relabelAt_def ruleValue_def split: sum.splits)
    show ?thesis
      using fold_writes [OF slot, of "?off + i" "labelValues st" "length ?rs"] that len
      by (simp add: relabel_def)
  qed
  have buf: "labelValues ?st' =
      OrderedLabelValues nsCfg
        @ map (\<lambda>i. case ruleValue (?rs ! i) entry of
                      None \<Rightarrow> labelValues st ! (?off + i) | Some v \<Rightarrow> v) [0..<length ?rs]"
  proof -
    have "map (\<lambda>i. labelValues ?st' ! (?off + i)) [0..<length ?rs] =
          map (\<lambda>i. case ruleValue (?rs ! i) entry of
                      None \<Rightarrow> labelValues st ! (?off + i) | Some v \<Rightarrow> v) [0..<length ?rs]"
      using pos by (intro map_cong refl) simp
    then show ?thesis by (subst processSourceFile_buffer [OF run]) (rule arg_cong)
  qed
  have fresh: "(\<forall>i < length ?rs. ruleValue (?rs ! i) entry = None \<longrightarrow>
                  labelValues st ! (?off + i) = []) \<longrightarrow>
               labelValues ?st' = specLabelVector nsCfg ?rs entry"
  proof
    assume empty: "\<forall>i < length ?rs. ruleValue (?rs ! i) entry = None \<longrightarrow>
                  labelValues st ! (?off + i) = []"
    have "map (\<lambda>i. case ruleValue (?rs ! i) entry of
                      None \<Rightarrow> labelValues st ! (?off + i) | Some v \<Rightarrow> v) [0..<length ?rs] =
          map (\<lambda>i. case ruleValue (?rs ! i) entry of None \<Rightarrow> [] | Some v \<Rightarrow> v) [0..<length ?rs]"
      using empty by (intro map_cong refl) (auto split: option.splits)
    also have "\<dots> = map (\<lambda>r. case ruleValue r entry of None \<Rightarrow> [] | Some v \<Rightarrow> v) ?rs"
      by (intro nth_equalityI) simp_all
    finally show "labelValues ?st' = specLabelVector nsCfg ?rs entry"
      using buf by (simp add: specLabelVector_def)
  qed
  have count: "series (countTotal (metrics ?st')) =
             (series (countTotal (metrics st)))
               (labelValues ?st' := series (countTotal (metrics st)) (labelValues ?st') + 1)"
    by (simp add: countTotal_recorded)
  have resp: "\<forall>v. EntryFloatField (ParseFloat env) entry ''request_time'' = Inr v \<longrightarrow>
              series (responseSeconds (metrics ?st')) =
                (series (responseSeconds (metrics st)))
                  (labelValues ?st' :=
                     series (responseSeconds (metrics st)) (labelValues ?st') @ [v]) \<and>
              series (responseSecondsHist (metrics ?st')) =
                (series (responseSecondsHist (metrics st)))
                  (labelValues ?st' :=
                     series (responseSecondsHist (metrics st)) (labelValues ?st') @ [v])"
    by (simp add: responseSeconds_recorded responseSecondsHist_recorded fieldValues_Inr)
  from run count buf fresh resp show ?thesis
    by (intro exI [of _ ?st']) blast
qed

text \<open>
  In the sample namespace: the second of two lines, whose request time is observed, and
  a first line, whose label values are the vector of the specification.
\<close>

theorem request_counted_once_witness:
  "ParseString sampleEnv (Format sampleCfg) dashLine = Inr dashEntry \<and>
   processSourceFile sampleEnv sampleCfg [okLine] sampleMetrics = Inr afterOk \<and>
   accepts (metrics afterOk) (labelValues afterOk) \<and>
   bytesAccepted sampleEnv dashEntry \<and>
   EntryFloatField (ParseFloat sampleEnv) dashEntry ''request_time'' = Inr (1 / 8) \<and>
   (\<exists>st'. processSourceFile sampleEnv sampleCfg ([okLine] @ [dashLine]) sampleMetrics = Inr st' \<and>
      series (countTotal (metrics st')) =
        (series (countTotal (metrics afterOk)))
          (labelValues st' := series (countTotal (metrics afterOk)) (labelValues st') + 1) \<and>
      series (responseSeconds (metrics st')) =
        (series (responseSeconds (metrics afterOk)))
          (labelValues st' := series (responseSeconds (metrics afterOk)) (labelValues st') @ [1 / 8]) \<and>
      series (responseSecondsHist (metrics st')) =
        (series (responseSecondsHist (metrics afterOk)))
          (labelValues st' :=
             series (responseSecondsHist (metrics afterOk)) (labelValues st') @ [1 / 8])) \<and>
   ParseString sampleEnv (Format sampleCfg) okLine = Inr okEntry \<and>
   processSourceFile sampleEnv sampleCfg [] sampleMetrics = Inr sampleStart \<and>
   accepts (metrics sampleStart) (labelValues sampleStart) \<and>
   bytesAccepted sampleEnv okEntry \<and>
   (\<exists>st'. processSourceFile sampleEnv sampleCfg ([] @ [okLine]) sampleMetrics = Inr st' \<and>
      labelValues st' = specLabelVector sampleCfg (relabelings sampleEnv sampleCfg) okEntry)"
proof -
  have h1: "ParseString sampleEnv (Format sampleCfg) dashLine = Inr dashEntry"
    by (rule sampleParse_simps)
  note h2 = sample_run_ok
  have h3: "accepts (metrics afterOk) (labelValues afterOk)"
    by (simp add: afterOk_labels afterOk_accepts)
  note h4 = sample_bytes(2)
  note h5 = sample_floats(3)
  have g1: "ParseString sampleEnv (Format sampleCfg) okLine = Inr okEntry"
    by (rule sampleParse_simps)
  have g2: "processSourceFile sampleEnv sampleCfg [] sampleMetrics = Inr sampleStart"
    by (simp add: sample_start sampleStart_def)
  have g3: "accepts (metrics sampleStart) (labelValues sampleStart)"
    by (simp add: sampleStart_def sample_accepts)
  note g4 = sample_bytes(1)
  have empty: "\<forall>i < length (relabelings sampleEnv sampleCfg).
      ruleValue (relabelings sampleEnv sampleCfg ! i) okEntry = None \<longrightarrow>
      labelValues sampleStart ! (length (OrderedLabelValues sampleCfg) + i) = []"
    by (simp add: sample_rules sample_off sampleStart_def less_Suc_eq)
  from request_counted_once [OF h1 h2 h3 h4] h5
  have first: "\<exists>st'. processSourceFile sampleEnv sampleCfg ([okLine] @ [dashLine]) sampleMetrics = Inr st' \<and>
      series (countTotal (metrics st')) =
        (series (countTotal (metrics afterOk)))
          (labelValues st' := series (countTotal (metrics afterOk)) (labelValues st') + 1) \<and>
      series (responseSeconds (metrics st')) =
        (series (responseSeconds (metrics afterOk)))
          (labelValues st' := series (responseSeconds (metrics afterOk)) (labelValues st') @ [1 / 8]) \<and>
      series (responseSecondsHist (metrics st')) =
        (series (responseSecondsHist (metrics afterOk)))
          (labelValues st' :=
             series (responseSecondsHist (metrics afterOk)) (labelValues st') @ [1 / 8])"
    by blast
  from request_counted_once [OF g1 g2 g3 g4] empty
  have second: "\<exists>st'. processSourceFile sampleEnv sampleCfg ([] @ [okLine]) sampleMetrics = Inr st' \<and>
      labelValues st' = specLabelVector sampleCfg (relabelings sampleEnv sampleCfg) okEntry"
    by blast
  from h1 h2 h3 h4 h5 first g1 g2 g3 g4 second show ?thesis by blast
qed

subsection \<open>C7: an error of a follower ends the process\<close>

text \<open>
  Claim C7. When a follower cannot be created for a source file of any namespace that
  has compiled, the process does not start: it has ended with a panic, whatever the
  followers of the other files deliver. When the follower of a started loop reports an
  error, after any events, the process has ended with a panic, and no later event
  changes that.
\<close>

theorem follower_error_is_fatal:
  "(cfg0 \<in> set cfgs \<and> Init env cfg0 = Inr (cfg, M) \<and> f \<in> set (SourceFiles cfg) \<and>
    NewFollower env f = Inl err \<longrightarrow>
      (\<exists>e. startNamespaces env cfgs = Panicked e \<and>
           run env (startNamespaces env cfgs) evs = Panicked e)) \<and>
   (n < length nss \<and> k < length (loops (nss ! n)) \<longrightarrow>
      (\<exists>e. run env (Running nss) (evs1 @ [Failed n k err2]) = Panicked e \<and>
           run env (Running nss) (evs1 @ Failed n k err2 # evs2) = Panicked e))"
proof (intro conjI impI)
  assume a: "cfg0 \<in> set cfgs \<and> Init env cfg0 = Inr (cfg, M) \<and> f \<in> set (SourceFiles cfg) \<and>
    NewFollower env f = Inl err"
  then obtain e0 where "processNamespace env cfg0 = Inl e0"
    using processNamespace_failure by blast
  with a obtain e where "startNamespaces env cfgs = Panicked e"
    using startNamespaces_failure by blast
  then show "\<exists>e. startNamespaces env cfgs = Panicked e \<and>
           run env (startNamespaces env cfgs) evs = Panicked e"
    by (simp add: run_Panicked)
next
  assume b: "n < length nss \<and> k < length (loops (nss ! n))"
  have "\<exists>e. run env (Running nss) (evs1 @ [Failed n k err2]) = Panicked e"
  proof (cases "run env (Running nss) evs1")
    case (Running nss1)
    from run_shape [OF this] b have "n < length nss1 \<and> k < length (loops (nss1 ! n))"
      using shape_loop by blast
    with Running show ?thesis by (simp add: run_append run_Cons run_def)
  next
    case (Panicked e)
    then show ?thesis by (simp add: run_append run_Panicked)
  qed
  then obtain e where e: "run env (Running nss) (evs1 @ [Failed n k err2]) = Panicked e" ..
  have "run env (Running nss) (evs1 @ Failed n k err2 # evs2) =
        run env (run env (Running nss) (evs1 @ [Failed n k err2])) evs2"
    by (simp add: run_def)
  with e show "\<exists>e. run env (Running nss) (evs1 @ [Failed n k err2]) = Panicked e \<and>
           run env (Running nss) (evs1 @ Failed n k err2 # evs2) = Panicked e"
    by (simp add: run_Panicked)
qed

text \<open>
  In the sample namespaces: a source file that does not exist, and a started follower
  that reports an error between two lines.
\<close>

theorem follower_error_is_fatal_witness:
  "missingCfg \<in> set [sampleCfg, missingCfg] \<and>
   Init sampleEnv missingCfg = Inr (missingCfg, newMetrics (InitLabels sampleEnv missingCfg)) \<and>
   ''/var/log/nginx/missing.log'' \<in> set (SourceFiles missingCfg) \<and>
   NewFollower sampleEnv ''/var/log/nginx/missing.log'' = Inl (Error ''no such file or directory'') \<and>
   (\<exists>e. startNamespaces sampleEnv [sampleCfg, missingCfg] = Panicked e \<and>
        run sampleEnv (startNamespaces sampleEnv [sampleCfg, missingCfg]) [Line 0 0 okLine] =
          Panicked e) \<and>
   0 < length [sampleState] \<and> 0 < length (loops ([sampleState] ! 0)) \<and>
   (\<exists>e. run sampleEnv (Running [sampleState])
          ([Line 0 0 okLine] @ [Failed 0 0 (Error ''file removed'')]) = Panicked e \<and>
        run sampleEnv (Running [sampleState])
          ([Line 0 0 okLine] @ Failed 0 0 (Error ''file removed'') # [Line 0 0 dashLine]) =
          Panicked e)"
proof -
  have h1: "missingCfg \<in> set [sampleCfg, missingCfg]" by simp
  have labels: "InitLabels sampleEnv missingCfg = [''app'', ''method'', ''status'', ''user'']"
    using sample_labels by (simp add: InitLabels_eq missingCfg_def)
  have h2: "Init sampleEnv missingCfg = Inr (missingCfg, newMetrics (InitLabels sampleEnv missingCfg))"
    using Init_labels_distinct [OF sample_MustCompile, of missingCfg]
    by (simp add: labels newMetrics_def)
  have h3: "''/var/log/nginx/missing.log'' \<in> set (SourceFiles missingCfg)"
    by (simp add: missingCfg_def)
  have h4: "NewFollower sampleEnv ''/var/log/nginx/missing.log'' =
      Inl (Error ''no such file or directory'')"
    by (simp add: sampleEnv_def)
  have h5: "0 < length [sampleState] \<and> 0 < length (loops ([sampleState] ! 0))"
    by (simp add: sampleState_def)
  from follower_error_is_fatal [of missingCfg "[sampleCfg, missingCfg]" sampleEnv missingCfg
      "newMetrics (InitLabels sampleEnv missingCfg)" "''/var/log/nginx/missing.log''"
      "Error ''no such file or directory''" "[Line 0 0 okLine]" 0 "[sampleState]" 0
      "[Line 0 0 okLine]" "Error ''file removed''" "[Line 0 0 dashLine]"]
    h1 h2 h3 h4 h5
  show ?thesis by blast
qed

subsection \<open>C9: the static label values are never overwritten\<close>

text \<open>
  Claim C9. The loop over the rules leaves the first \<open>relabelLabelOffset\<close> positions of
  any buffer as they are. So after any lines of a loop the front of its buffer holds the
  static label values of the namespace, and the buffer with which the metrics are
  updated for a parsed line has them at its front.
\<close>

theorem static_prefix_frame:
  "take off (relabel entry rs off lvs) = take off lvs \<and>
   (processSourceFile env nsCfg lines m = Inr st \<longrightarrow>
      take (length (OrderedLabelValues nsCfg)) (labelValues st) = OrderedLabelValues nsCfg) \<and>
   (processSourceFile env nsCfg lines m = Inr st \<and>
    ParseString env (Format nsCfg) text = Inr entry' \<and>
    processSourceFile env nsCfg (lines @ [text]) m = Inr st' \<longrightarrow>
      updateMetrics env entry' (labelValues st') (metrics st) = Inr (metrics st') \<and>
      take (length (OrderedLabelValues nsCfg)) (labelValues st') = OrderedLabelValues nsCfg)"
proof (intro conjI impI)
  show "take off (relabel entry rs off lvs) = take off lvs"
    by (rule relabel_take)
next
  assume "processSourceFile env nsCfg lines m = Inr st"
  then show "take (length (OrderedLabelValues nsCfg)) (labelValues st) = OrderedLabelValues nsCfg"
    by (rule processSourceFile_take)
next
  assume a: "processSourceFile env nsCfg lines m = Inr st \<and>
    ParseString env (Format nsCfg) text = Inr entry' \<and>
    processSourceFile env nsCfg (lines @ [text]) m = Inr st'"
  then have "processLine env nsCfg text st = Inr st'"
    using processSourceFile_step [of env nsCfg "lines" m st "text"] by simp
  with a show "updateMetrics env entry' (labelValues st') (metrics st) = Inr (metrics st')"
    using processLine_Inr(2) by blast
next
  assume "processSourceFile env nsCfg lines m = Inr st \<and>
    ParseString env (Format nsCfg) text = Inr entry' \<and>
    processSourceFile env nsCfg (lines @ [text]) m = Inr st'"
  then show "take (length (OrderedLabelValues nsCfg)) (labelValues st') = OrderedLabelValues nsCfg"
    using processSourceFile_take by blast
qed

text \<open>
  In the sample namespace, after one line and after two.
\<close>

theorem static_prefix_frame_witness:
  "take 1 (relabel okEntry (relabelings sampleEnv sampleCfg) 1 [''web'', [], [], []]) =
     take 1 [''web'', [], [], []] \<and>
   processSourceFile sampleEnv sampleCfg [okLine] sampleMetrics = Inr afterOk \<and>
   take (length (OrderedLabelValues sampleCfg)) (labelValues afterOk) = OrderedLabelValues sampleCfg \<and>
   ParseString sampleEnv (Format sampleCfg) dashLine = Inr dashEntry \<and>
   processSourceFile sampleEnv sampleCfg ([okLine] @ [dashLine]) sampleMetrics = Inr afterOkDash \<and>
   updateMetrics sampleEnv dashEntry (labelValues afterOkDash) (metrics afterOk) =
     Inr (metrics afterOkDash) \<and>
   take (length (OrderedLabelValues sampleCfg)) (labelValues afterOkDash) =
     OrderedLabelValues sampleCfg"
proof -
  note h1 = sample_run_ok
  have h2: "ParseString sampleEnv (Format sampleCfg) dashLine = Inr dashEntry"
    by (rule sampleParse_simps)
  have h3: "processSourceFile sampleEnv sampleCfg ([okLine] @ [dashLine]) sampleMetrics =
      Inr afterOkDash"
    using sample_run_ok_dash by simp
  from static_prefix_frame [of 1 okEntry "relabelings sampleEnv sampleCfg" "[''web'', [], [], []]"
      sampleEnv sampleCfg "[okLine]" sampleMetrics afterOk dashLine dashEntry afterOkDash]
    h1 h2 h3
  show ?thesis by blast
qed

subsection \<open>C10: the fields behind the numeric metrics\<close>

text \<open>
  Claim C10. Whatever the namespace and its rules, after a parsed line that the loop has
  handled the series of bytes has been given the numbers of the field
  \<^verbatim>\<open>body_bytes_sent\<close>, the two upstream vectors those of
  \<^verbatim>\<open>upstream_response_time\<close> and the two response vectors those of
  \<^verbatim>\<open>request_time\<close>; and lines that agree on these three fields update the metrics
  in the same way, and meet the same panic if any, whatever their other fields hold.
\<close>

theorem numeric_fields_hardcoded:
  fixes env :: "'f Env"
  assumes "ParseString env (Format nsCfg) text = Inr entry"
      and "processLine env nsCfg text st = Inr st'"
  shows "series (bytesTotal (metrics st')) =
           (series (bytesTotal (metrics st)))
             (labelValues st' := series (bytesTotal (metrics st)) (labelValues st')
                                  @ fieldValues env entry ''body_bytes_sent'') \<and>
         series (upstreamSeconds (metrics st')) =
           (series (upstreamSeconds (metrics st)))
             (labelValues st' := series (upstreamSeconds (metrics st)) (labelValues st')
                                  @ fieldValues env entry ''upstream_response_time'') \<and>
         series (upstreamSecondsHist (metrics st')) =
           (series (upstreamSecondsHist (metrics st)))
             (labelValues st' := series (upstreamSecondsHist (metrics st)) (labelValues st')
                                  @ fieldValues env entry ''upstream_response_time'') \<and>
         series (responseSeconds (metrics st')) =
           (series (responseSeconds (metrics st)))
             (labelValues st' := series (responseSeconds (metrics st)) (labelValues st')
                                  @ fieldValues env entry ''request_time'') \<and>
         series (responseSecondsHist (metrics st')) =
           (series (responseSecondsHist (metrics st)))
             (labelValues st' := series (responseSecondsHist (metrics st)) (labelValues st')
                                  @ fieldValues env entry ''request_time'') \<and>
         (\<forall>entry2 lvs m2.
            entry2 ''body_bytes_sent'' = entry ''body_bytes_sent'' \<and>
            entry2 ''upstream_response_time'' = entry ''upstream_response_time'' \<and>
            entry2 ''request_time'' = entry ''request_time'' \<longrightarrow>
            updateMetrics env entry2 lvs m2 = updateMetrics env entry lvs m2)"
proof -
  have upd: "updateMetrics env entry (labelValues st') (metrics st) = Inr (metrics st')"
    using assms by (rule processLine_Inr(2))
  have inc: "\<And>c. CounterInc (countTotal (metrics st)) (labelValues st') = Inr c \<Longrightarrow>
      c = (countTotal (metrics st))\<lparr>series := (series (countTotal (metrics st)))
            (labelValues st' := series (countTotal (metrics st)) (labelValues st') + 1)\<rparr>"
    by (auto simp: CounterInc_def WithLabelValues_def split: if_splits)
  have add: "\<And>v b. CounterAdd (Negative env) (bytesTotal (metrics st)) (labelValues st') v = Inr b \<Longrightarrow>
      b = grow (bytesTotal (metrics st)) (labelValues st') [v]"
    by (auto simp: CounterAdd_def WithLabelValues_def grow_def split: if_splits)
  have obs: "\<And>(vec :: 'f list Vec) v w. Observe vec (labelValues st') v = Inr w \<Longrightarrow>
      w = grow vec (labelValues st') [v]"
    by (auto simp: Observe_def WithLabelValues_def grow_def split: if_splits)
  have ms: "metrics st' = recorded env entry (labelValues st') (metrics st)"
    using inc add obs upd by (rule updateMetrics_returned)
  have agree: "\<forall>entry2 lvs m2.
            entry2 ''body_bytes_sent'' = entry ''body_bytes_sent'' \<and>
            entry2 ''upstream_response_time'' = entry ''upstream_response_time'' \<and>
            entry2 ''request_time'' = entry ''request_time'' \<longrightarrow>
            updateMetrics env entry2 lvs m2 = updateMetrics env entry lvs m2"
    by (simp add: updateMetrics_def EntryFloatField_def EntryField_def)
  have "series (bytesTotal (metrics st')) =
           (series (bytesTotal (metrics st)))
             (labelValues st' := series (bytesTotal (metrics st)) (labelValues st')
                                  @ fieldValues env entry ''body_bytes_sent'')"
    by (subst ms) (rule bytesTotal_recorded)
  moreover have "series (upstreamSeconds (metrics st')) =
           (series (upstreamSeconds (metrics st)))
             (labelValues st' := series (upstreamSeconds (metrics st)) (labelValues st')
                                  @ fieldValues env entry ''upstream_response_time'')"
    by (subst ms) (rule upstreamSeconds_recorded)
  moreover have "series (upstreamSecondsHist (metrics st')) =
           (series (upstreamSecondsHist (metrics st)))
             (labelValues st' := series (upstreamSecondsHist (metrics st)) (labelValues st')
                                  @ fieldValues env entry ''upstream_response_time'')"
    by (subst ms) (rule upstreamSecondsHist_recorded)
  moreover have "series (responseSeconds (metrics st')) =
           (series (responseSeconds (metrics st)))
             (labelValues st' := series (responseSeconds (metrics st)) (labelValues st')
                                  @ fieldValues env entry ''request_time'')"
    by (subst ms) (rule responseSeconds_recorded)
  moreover have "series (responseSecondsHist (metrics st')) =
           (series (responseSecondsHist (metrics st)))
             (labelValues st' := series (responseSecondsHist (metrics st)) (labelValues st')
                                  @ fieldValues env entry ''request_time'')"
    by (subst ms) (rule responseSecondsHist_recorded)
  ultimately show ?thesis using agree by blast
qed

text \<open>
  In the sample namespace: the line of \<^verbatim>\<open>alice\<close>, and the same line with another
  status.
\<close>

theorem numeric_fields_hardcoded_witness:
  "ParseString sampleEnv (Format sampleCfg) okLine = Inr okEntry \<and>
   processLine sampleEnv sampleCfg okLine sampleStart = Inr afterOk \<and>
   fieldValues sampleEnv okEntry ''body_bytes_sent'' = [512] \<and>
   fieldValues sampleEnv okEntry ''upstream_response_time'' = [] \<and>
   series (bytesTotal (metrics afterOk)) =
     (series (bytesTotal (metrics sampleStart)))
       (labelValues afterOk := series (bytesTotal (metrics sampleStart)) (labelValues afterOk) @ [512]) \<and>
   series (upstreamSeconds (metrics afterOk)) = series (upstreamSeconds (metrics sampleStart)) \<and>
   (okEntry(''status'' \<mapsto> ''404'')) ''body_bytes_sent'' = okEntry ''body_bytes_sent'' \<and>
   (okEntry(''status'' \<mapsto> ''404'')) ''upstream_response_time'' = okEntry ''upstream_response_time'' \<and>
   (okEntry(''status'' \<mapsto> ''404'')) ''request_time'' = okEntry ''request_time'' \<and>
   updateMetrics sampleEnv (okEntry(''status'' \<mapsto> ''404'')) [''web''] sampleMetrics =
     updateMetrics sampleEnv okEntry [''web''] sampleMetrics"
proof -
  have h: "ParseString sampleEnv (Format sampleCfg) okLine = Inr okEntry"
    by (rule sampleParse_simps)
  have h2: "processLine sampleEnv sampleCfg okLine sampleStart = Inr afterOk"
    using sample_line_ok [of sampleStart "[]" "[]" "[]"]
    by (simp add: sampleStart_def sample_accepts afterOk_def)
  note f1 = sample_fieldValues(1) and f2 = sample_fieldValues(2)
  have agree: "(okEntry(''status'' \<mapsto> ''404'')) ''body_bytes_sent'' = okEntry ''body_bytes_sent'' \<and>
   (okEntry(''status'' \<mapsto> ''404'')) ''upstream_response_time'' = okEntry ''upstream_response_time'' \<and>
   (okEntry(''status'' \<mapsto> ''404'')) ''request_time'' = okEntry ''request_time''"
    by simp
  note T = numeric_fields_hardcoded [OF h h2]
  note c1 = T [THEN conjunct1, unfolded f1]
  have c2: "series (upstreamSeconds (metrics afterOk)) = series (upstreamSeconds (metrics sampleStart))"
    using T [THEN conjunct2, THEN conjunct1] unfolding f2 by simp
  have c6: "updateMetrics sampleEnv (okEntry(''status'' \<mapsto> ''404'')) [''web''] sampleMetrics =
     updateMetrics sampleEnv okEntry [''web''] sampleMetrics"
    using T agree by blast
  from h h2 f1 f2 c1 c2 agree c6 show ?thesis by blast
qed

end
